theory Spec2Isabelle
  imports Main
begin

section \<open>Data model\<close>

text \<open>
  The objects pushed by \<^verbatim>\<open>parseChurchesFromHTML\<close> and read by
  \<^verbatim>\<open>consolidateChurchData\<close>:
  \<^verbatim>\<open>{ name, location, pastor, attendance, ranking }\<close>.
  \<^verbatim>\<open>attendance\<close> is a number or \<^verbatim>\<open>null\<close>.
\<close>

record church =
  name :: string
  location :: string
  pastor :: string
  attendance :: "int option"
  ranking :: int

text \<open>
  One element of an entity's \<^verbatim>\<open>data\<close> array:
  \<^verbatim>\<open>{ year: parseInt(year), attendance: church.attendance, ranking: church.ranking }\<close>.
\<close>

record dataPoint =
  year :: int
  attendance :: "int option"
  ranking :: int

text \<open>
  One value of \<^verbatim>\<open>churchMap\<close>:
  \<^verbatim>\<open>{ name, location, pastor, data: [] }\<close>.
\<close>

record entity =
  name :: string
  location :: string
  pastor :: string
  data :: "dataPoint list"

text \<open>
  \<^verbatim>\<open>yearlyData\<close> is an object whose property names are years; the model is the list
  \<^verbatim>\<open>Object.entries(yearlyData)\<close> yields, each property name already read by
  \<^verbatim>\<open>parseInt\<close>. The list is in the object's property order, whatever that is; two
  entries hold the same year when two property names read as the same number.
\<close>

type_synonym yearlyData = "(int \<times> church list) list"

text \<open>
  \<^verbatim>\<open>churchMap\<close> is a JavaScript \<^verbatim>\<open>Map\<close>, which keeps its keys in insertion
  order: an association list with the newest key last.
\<close>

type_synonym churchMap = "(string \<times> entity) list"

text \<open>
  \<^verbatim>\<open>xs.sort((a, b) => key(a) - key(b))\<close>: \<^verbatim>\<open>Array.prototype.sort\<close> is a stable sort, and
  the comparator orders by the number \<^verbatim>\<open>key\<close> ascending. Insertion sort from the right
  is the stable sort of HOL.
\<close>

definition sort_by :: "('a \<Rightarrow> int) \<Rightarrow> 'a list \<Rightarrow> 'a list" where
  "sort_by key xs = sort_key key xs"

section \<open>Texts\<close>

text \<open>
  Texts are lists of 8-bit characters: the model covers markup whose code units are
  below 256. \<^verbatim>\<open>String.prototype.trim\<close> and the class \<^verbatim>\<open>\s\<close> remove and match the
  same characters, of which these are below 256.
\<close>

definition is_space :: "char \<Rightarrow> bool" where
  "is_space c \<longleftrightarrow>
     c \<in> set [CHR 0x09, CHR 0x0A, CHR 0x0B, CHR 0x0C, CHR 0x0D, CHR 0x20, CHR 0xA0]"

definition is_digit :: "char \<Rightarrow> bool" where
  "is_digit c \<longleftrightarrow> c \<in> set ''0123456789''"

definition is_upper :: "char \<Rightarrow> bool" where
  "is_upper c \<longleftrightarrow> c \<in> set ''ABCDEFGHIJKLMNOPQRSTUVWXYZ''"

definition is_lower :: "char \<Rightarrow> bool" where
  "is_lower c \<longleftrightarrow> c \<in> set ''abcdefghijklmnopqrstuvwxyz''"

text \<open>The class \<^verbatim>\<open>\w\<close>, which decides where \<^verbatim>\<open>\b\<close> holds.\<close>

definition is_word :: "char \<Rightarrow> bool" where
  "is_word c \<longleftrightarrow> is_upper c \<or> is_lower c \<or> is_digit c \<or> c = CHR ''_''"

definition trim :: "string \<Rightarrow> string" where
  "trim s = rev (dropWhile is_space (rev (dropWhile is_space s)))"

definition digit_value :: "char \<Rightarrow> nat" where
  "digit_value c = of_char c - 48"

text \<open>\<^verbatim>\<open>parseInt\<close> on a text made of decimal digits only.\<close>

definition decimal :: "string \<Rightarrow> int" where
  "decimal ds = int (foldl (\<lambda>n c. 10 * n + digit_value c) 0 ds)"

text \<open>\<^verbatim>\<open>text.match(/^\d+$/)\<close> succeeds.\<close>

definition all_digits :: "string \<Rightarrow> bool" where
  "all_digits text \<longleftrightarrow> text \<noteq> [] \<and> list_all is_digit text"

text \<open>
  The matches of \<^verbatim>\<open>/\b(\d{3,6})\b/\<close> in a text, from left to right. A digit is a
  word character, so a match starts where the character before is no word character (or
  at the start), takes the whole run of digits there, which must have 3 to 6 digits, and
  ends where the next character is no word character (or at the end). The first argument
  tells whether the character before is a word character.
\<close>

fun number_matches :: "bool \<Rightarrow> string \<Rightarrow> string list" where
  "number_matches prev [] = []"
| "number_matches prev (c # cs) =
     (let run = takeWhile is_digit (c # cs); rest = dropWhile is_digit (c # cs)
      in if \<not> prev \<and> is_digit c \<and> 3 \<le> length run \<and> length run \<le> 6 \<and>
            (case rest of [] \<Rightarrow> True | a # _ \<Rightarrow> \<not> is_word a)
         then run # number_matches (is_word c) cs
         else number_matches (is_word c) cs)"

text \<open>
  \<^verbatim>\<open>text.match(/\b(\d{3,6})\b/)\<close> has no \<^verbatim>\<open>g\<close> flag: it yields the first match
  only, or \<^verbatim>\<open>null\<close>. The result is the captured group \<^verbatim>\<open>numberMatch[1]\<close>.
\<close>

definition numberMatch :: "string \<Rightarrow> string option" where
  "numberMatch text = (case number_matches False text of [] \<Rightarrow> None | m # _ \<Rightarrow> Some m)"

text \<open>
  \<^verbatim>\<open>/^[A-Za-z\s]+,\s*[A-Z]{2,}$/.test(text)\<close>: the first class excludes the comma,
  so the comma of the pattern is the first comma of the text; what follows it is white
  space and then at least two capitals up to the end.
\<close>

definition location_pattern :: "string \<Rightarrow> bool" where
  "location_pattern text \<longleftrightarrow>
     (let city = takeWhile (\<lambda>c. c \<noteq> CHR '','') text;
          rest = dropWhile (\<lambda>c. c \<noteq> CHR '','') text
      in city \<noteq> [] \<and> list_all (\<lambda>c. is_upper c \<or> is_lower c \<or> is_space c) city \<and>
         (case rest of
            [] \<Rightarrow> False
          | _ # state \<Rightarrow>
              2 \<le> length (dropWhile is_space state) \<and>
              list_all is_upper (dropWhile is_space state)))"

section \<open>The extractor\<close>

text \<open>
  \<^verbatim>\<open>parseChurchesFromHTML\<close> reads the page through cheerio selections only. The model
  takes a page as the list of the anchors \<^verbatim>\<open>$('a[href*="/churches/"]')\<close> selects, in
  document order, each with the texts the function reads around it:
  \<^item> \<^verbatim>\<open>$container.prev().text()\<close>,
  \<^item> \<^verbatim>\<open>$link.prev().text()\<close>,
  \<^item> \<^verbatim>\<open>$link.text()\<close>,
  \<^item> \<^verbatim>\<open>$container.find('h1, h2, h3, h4, h5, h6').first().text()\<close>,
  \<^item> the texts \<^verbatim>\<open>$(elem).text()\<close> of the elements of \<^verbatim>\<open>$container.find('*')\<close>, in order.

  An empty selection has the text \<^verbatim>\<open>''\<close>. None of these calls throws, so the
  \<^verbatim>\<open>catch\<close> around the body of the loop has no branch in the model.
\<close>

record anchor =
  containerPrevText :: string
  linkPrevText :: string
  linkText :: string
  headingText :: string
  descendantTexts :: "string list"

type_synonym html = "anchor list"

text \<open>\<^verbatim>\<open>$container.find('*').first().text()\<close>\<close>

definition firstDescendantText :: "anchor \<Rightarrow> string" where
  "firstDescendantText a = (case descendantTexts a of [] \<Rightarrow> [] | t # _ \<Rightarrow> t)"

definition rankingSelectors :: "anchor \<Rightarrow> string list" where
  "rankingSelectors a =
     [trim (containerPrevText a), trim (firstDescendantText a), trim (linkPrevText a)]"

text \<open>
  The test of the \<^verbatim>\<open>for (const text of rankingSelectors)\<close> loop:
  \<^verbatim>\<open>rankMatch && parseInt(rankMatch[0]) <= 100\<close>.
\<close>

definition rank_candidate :: "string \<Rightarrow> bool" where
  "rank_candidate text \<longleftrightarrow> all_digits text \<and> decimal text \<le> 100"

text \<open>The loop itself: the first candidate that passes sets \<^verbatim>\<open>ranking\<close> and breaks.\<close>

fun find_ranking :: "string list \<Rightarrow> int option" where
  "find_ranking [] = None"
| "find_ranking (text # rest) =
     (if rank_candidate text then Some (decimal text) else find_ranking rest)"

text \<open>\<^verbatim>\<open>if (!ranking) ranking = index + 1\<close>: \<^verbatim>\<open>null\<close> and \<^verbatim>\<open>0\<close> are falsy.\<close>

definition final_ranking :: "nat \<Rightarrow> int option \<Rightarrow> int" where
  "final_ranking index r =
     (case r of None \<Rightarrow> int index + 1 | Some n \<Rightarrow> if n = 0 then int index + 1 else n)"

definition churchName :: "anchor \<Rightarrow> string" where
  "churchName a = (if trim (linkText a) = [] then trim (headingText a) else trim (linkText a))"

text \<open>The body of the first \<^verbatim>\<open>$container.find('*').each\<close>, on the pair (location, pastor).\<close>

definition scan_location_pastor :: "string \<times> string \<Rightarrow> string \<Rightarrow> string \<times> string" where
  "scan_location_pastor lp elemText =
     (let text = trim elemText;
          location' = (if location_pattern text \<and> length text < 50 then text else fst lp);
          possiblePastor = trim (rev (takeWhile (\<lambda>c. c \<noteq> CHR ''-'') (rev text)));
          pastor' = (if CHR ''-'' \<in> set text \<and> length text < 100 \<and> possiblePastor \<noteq> [] \<and>
                        CHR '','' \<notin> set possiblePastor \<and> length possiblePastor < 50
                     then possiblePastor else snd lp)
      in (location', pastor'))"

text \<open>
  The body of the second \<^verbatim>\<open>$container.find('*').each\<close>, on \<^verbatim>\<open>attendance\<close>:
  \<^verbatim>\<open>if (numberMatch && !attendance) { number = parseInt(numberMatch[1]); if (...) attendance = number }\<close>.
\<close>

definition attendance_step :: "int option \<Rightarrow> string \<Rightarrow> int option" where
  "attendance_step att elemText =
     (case numberMatch (trim elemText) of
        None \<Rightarrow> att
      | Some m \<Rightarrow>
          if att = None \<or> att = Some 0
          then (if 1000 \<le> decimal m \<and> decimal m \<le> 100000 then Some (decimal m) else att)
          else att)"

definition extract_attendance :: "string list \<Rightarrow> int option" where
  "extract_attendance texts = foldl attendance_step None texts"

text \<open>The body of \<^verbatim>\<open>.each((index, element) => ...)\<close>: the record pushed, if any.\<close>

definition parse_anchor :: "nat \<Rightarrow> anchor \<Rightarrow> church option" where
  "parse_anchor index a =
     (let rank = final_ranking index (find_ranking (rankingSelectors a));
          lp = foldl scan_location_pastor ([], []) (descendantTexts a);
          att = extract_attendance (descendantTexts a)
      in if churchName a \<noteq> [] \<and> rank \<noteq> 0
         then Some \<lparr>church.name = churchName a,
                    church.location = (if fst lp = [] then ''Location not found'' else fst lp),
                    church.pastor = (if snd lp = [] then ''Pastor not found'' else snd lp),
                    church.attendance = att,
                    church.ranking = rank\<rparr>
         else None)"

text \<open>The records pushed, in document order; the first argument is the index of the
  first anchor of the list.\<close>

fun pushed :: "nat \<Rightarrow> html \<Rightarrow> church list" where
  "pushed index [] = []"
| "pushed index (a # rest) =
     (case parse_anchor index a of
        None \<Rightarrow> pushed (Suc index) rest
      | Some c \<Rightarrow> c # pushed (Suc index) rest)"

definition parseChurchesFromHTML :: "html \<Rightarrow> church list" where
  "parseChurchesFromHTML page = sort_by church.ranking (pushed 0 page)"

section \<open>The year scraper\<close>

text \<open>A JavaScript number that holds a year: an integer or \<^verbatim>\<open>NaN\<close>.\<close>

datatype jsnumber = NaN | Num int

text \<open>The decimal digits of a natural number, as a template literal prints it.\<close>

fun string_of_nat :: "nat \<Rightarrow> string" where
  "string_of_nat n =
     (if n < 10 then [''0123456789'' ! n]
      else string_of_nat (n div 10) @ [''0123456789'' ! (n mod 10)])"

declare string_of_nat.simps [simp del]

definition string_of_number :: "jsnumber \<Rightarrow> string" where
  "string_of_number x =
     (case x of
        NaN \<Rightarrow> ''NaN''
      | Num i \<Rightarrow> if i < 0 then CHR ''-'' # string_of_nat (nat (- i)) else string_of_nat (nat i))"

definition url :: "jsnumber \<Rightarrow> nat \<Rightarrow> string" where
  "url y p =
     (if p = 1
      then ''https://outreach100.com/largest-churches-in-america/'' @ string_of_number y
      else ''https://outreach100.com/largest-churches-in-america/'' @ string_of_number y @
           ''?page='' @ string_of_nat p)"

text \<open>A thrown \<^verbatim>\<open>Error\<close>, with its message.\<close>

datatype error = Error string

text \<open>
  What \<^verbatim>\<open>fetch\<close> resolves to: \<^verbatim>\<open>response.ok\<close>, \<^verbatim>\<open>response.status\<close>,
  \<^verbatim>\<open>response.statusText\<close> and the outcome of \<^verbatim>\<open>await response.text()\<close>, which is the
  markup or a rejection.
\<close>

datatype response = Response bool nat string "error + html"

text \<open>
  The network: for each URL, \<^verbatim>\<open>await fetch(url, ...)\<close> rejects or resolves to a response.
  One run of \<^verbatim>\<open>scrapeYearData\<close> fetches each page at most once, so a function of the
  URL gives every sequence of outcomes a run can meet.
\<close>

type_synonym network = "string \<Rightarrow> error + response"

definition http_error :: "nat \<Rightarrow> string \<Rightarrow> error" where
  "http_error st txt = Error (''HTTP '' @ string_of_nat st @ '': '' @ txt)"

text \<open>
  The \<^verbatim>\<open>while (hasMorePages && page <= 10)\<close> loop on its variables \<^verbatim>\<open>churches\<close>,
  \<^verbatim>\<open>page\<close> and \<^verbatim>\<open>hasMorePages\<close>. The last argument is the list of the URLs fetched so
  far, which the result returns with what the function returns (\<open>Inr\<close>) or throws
  (\<open>Inl\<close>). A rejection of \<^verbatim>\<open>fetch\<close> or of \<^verbatim>\<open>response.text()\<close> and the error thrown
  for a response that is not ok all reach the same \<^verbatim>\<open>catch\<close>: rethrown on page 1,
  \<^verbatim>\<open>break\<close> otherwise. The second argument of \<^verbatim>\<open>parseChurchesFromHTML(html, year)\<close> is
  not read by that function. The 500 ms pause is not modelled.
\<close>

function scrape_loop ::
  "network \<Rightarrow> jsnumber \<Rightarrow> church list \<Rightarrow> nat \<Rightarrow> bool \<Rightarrow> string list
     \<Rightarrow> string list \<times> (error + church list)" where
  "scrape_loop fetch y churches page hasMorePages fetched =
     (if hasMorePages \<and> page \<le> 10 then
        (case fetch (url y page) of
           Inl e \<Rightarrow>
             if page = 1 then (fetched @ [url y page], Inl e)
             else (fetched @ [url y page], Inr churches)
         | Inr (Response ok st txt text) \<Rightarrow>
             if \<not> ok then
               (if page = 1 then (fetched @ [url y page], Inl (http_error st txt))
                else (fetched @ [url y page], Inr churches))
             else
               (case text of
                  Inl e \<Rightarrow>
                    if page = 1 then (fetched @ [url y page], Inl e)
                    else (fetched @ [url y page], Inr churches)
                | Inr html \<Rightarrow>
                    if parseChurchesFromHTML html = []
                    then scrape_loop fetch y churches page False (fetched @ [url y page])
                    else scrape_loop fetch y (churches @ parseChurchesFromHTML html)
                           (page + 1) True (fetched @ [url y page])))
      else (fetched, Inr churches))"
  by pat_completeness auto
termination
  by (relation "measure (\<lambda>(fetch, y, churches, page, hasMorePages, fetched).
        if hasMorePages then 12 - page else 0)") auto

declare scrape_loop.simps [simp del]

definition scrapeYearData :: "network \<Rightarrow> jsnumber \<Rightarrow> string list \<times> (error + church list)" where
  "scrapeYearData fetch y = scrape_loop fetch y [] 1 True []"

text \<open>The records a page contributes: those of its markup when the response is ok and
  its text is read, none otherwise.\<close>

definition page_records :: "network \<Rightarrow> jsnumber \<Rightarrow> nat \<Rightarrow> church list" where
  "page_records fetch y p =
     (case fetch (url y p) of
        Inr (Response True st txt (Inr html)) \<Rightarrow> parseChurchesFromHTML html
      | _ \<Rightarrow> [])"

text \<open>What the body of the \<^verbatim>\<open>try\<close> throws on a page, if anything: the rejection of
  \<^verbatim>\<open>fetch\<close>, the error for a response that is not ok, or the rejection of
  \<^verbatim>\<open>response.text()\<close>.\<close>

definition thrown_on :: "network \<Rightarrow> jsnumber \<Rightarrow> nat \<Rightarrow> error option" where
  "thrown_on fetch y p =
     (case fetch (url y p) of
        Inl e \<Rightarrow> Some e
      | Inr (Response ok st txt text) \<Rightarrow>
          if \<not> ok then Some (http_error st txt)
          else (case text of Inl e \<Rightarrow> Some e | Inr html \<Rightarrow> None))"

text \<open>The first of the pages 1 to 10 that contributes no record; 11 when each of the
  ten contributes some.\<close>

definition stop_page :: "network \<Rightarrow> jsnumber \<Rightarrow> nat" where
  "stop_page fetch y =
     (case List.find (\<lambda>p. page_records fetch y p = []) [1..<11] of
        None \<Rightarrow> 11
      | Some p \<Rightarrow> p)"

section \<open>The consolidator of \<^verbatim>\<open>src/server.js\<close>\<close>

text \<open>\<^verbatim>\<open>churchMap.has(key)\<close>\<close>

fun has :: "churchMap \<Rightarrow> string \<Rightarrow> bool" where
  "has [] k = False"
| "has ((k', v) # m) k = (k' = k \<or> has m k)"

text \<open>\<^verbatim>\<open>churchMap.set(key, value)\<close>: an existing key keeps its place, a new key goes last.\<close>

fun set_entry :: "churchMap \<Rightarrow> string \<Rightarrow> entity \<Rightarrow> churchMap" where
  "set_entry [] k v = [(k, v)]"
| "set_entry ((k', v') # m) k v =
     (if k' = k then (k, v) # m else (k', v') # set_entry m k v)"

text \<open>
  \<^verbatim>\<open>churchMap.get(key).data.push(d)\<close>: the array of the entity stored under the key grows
  by one element at its end. The source calls it only after the key has been set.
\<close>

fun push_data :: "churchMap \<Rightarrow> string \<Rightarrow> dataPoint \<Rightarrow> churchMap" where
  "push_data [] k d = []"
| "push_data ((k', v) # m) k d =
     (if k' = k then (k', v\<lparr>data := data v @ [d]\<rparr>) # m else (k', v) # push_data m k d)"

text \<open>The body of the inner \<^verbatim>\<open>churches.forEach(church => ...)\<close>.\<close>

definition add_church :: "int \<Rightarrow> churchMap \<Rightarrow> church \<Rightarrow> churchMap" where
  "add_church y m c =
     (let m' = (if \<not> has m (church.name c)
                then set_entry m (church.name c)
                       \<lparr>entity.name = church.name c,
                        entity.location = church.location c,
                        entity.pastor = church.pastor c,
                        data = []\<rparr>
                else m)
      in push_data m' (church.name c)
           \<lparr>year = y,
            dataPoint.attendance = church.attendance c,
            dataPoint.ranking = church.ranking c\<rparr>)"

text \<open>The body of the outer \<^verbatim>\<open>Object.entries(yearlyData).forEach(([year, churches]) => ...)\<close>.\<close>

definition add_year :: "churchMap \<Rightarrow> int \<times> church list \<Rightarrow> churchMap" where
  "add_year m yc = foldl (add_church (fst yc)) m (snd yc)"

text \<open>\<^verbatim>\<open>a.data[a.data.length - 1].ranking\<close>, the key of the final sort. The filter before
  it leaves no entity with an empty array.\<close>

definition latest_ranking :: "entity \<Rightarrow> int" where
  "latest_ranking a = dataPoint.ranking (last (data a))"

definition consolidateChurchData :: "yearlyData \<Rightarrow> entity list" where
  "consolidateChurchData yearlyData =
     (let churchMap = foldl add_year [] yearlyData
      in sort_by latest_ranking
           (map (\<lambda>church. church\<lparr>data := sort_by year (data church)\<rparr>)
              (filter (\<lambda>church. 3 \<le> length (data church))
                 (map snd churchMap))))"

section \<open>The consolidator of \<^verbatim>\<open>src/unnamed/part_000\<close>\<close>

text \<open>The same function as the first file of \<^verbatim>\<open>src/unnamed/part_000\<close> writes it
  (lines 481 to 514), translated on its own.\<close>

definition add_church_part000 :: "int \<Rightarrow> churchMap \<Rightarrow> church \<Rightarrow> churchMap" where
  "add_church_part000 y m c =
     (let m' = (if \<not> has m (church.name c)
                then set_entry m (church.name c)
                       \<lparr>entity.name = church.name c,
                        entity.location = church.location c,
                        entity.pastor = church.pastor c,
                        data = []\<rparr>
                else m)
      in push_data m' (church.name c)
           \<lparr>year = y,
            dataPoint.attendance = church.attendance c,
            dataPoint.ranking = church.ranking c\<rparr>)"

definition consolidateChurchData_part000 :: "yearlyData \<Rightarrow> entity list" where
  "consolidateChurchData_part000 yearlyData =
     (let churchMap =
            foldl (\<lambda>m yc. foldl (add_church_part000 (fst yc)) m (snd yc)) [] yearlyData
      in sort_by (\<lambda>a. dataPoint.ranking (last (data a)))
           (map (\<lambda>church. church\<lparr>data := sort_by year (data church)\<rparr>)
              (filter (\<lambda>church. 3 \<le> length (data church))
                 (map snd churchMap))))"

section \<open>The persisted data file and GET /api/get-data\<close>

text \<open>
  \<^verbatim>\<open>loadChurchData\<close> and the handler as the first file of \<^verbatim>\<open>src/unnamed/part_000\<close>
  has them (lines 309 to 333 and 48 to 69), where \<^verbatim>\<open>loadChurchData\<close> is a function
  of the module.

  What the handler reads of the value \<^verbatim>\<open>JSON.parse\<close> returns: a falsy value
  (\<^verbatim>\<open>null\<close>, \<^verbatim>\<open>false\<close>, \<^verbatim>\<open>0\<close>, \<^verbatim>\<open>""\<close>), or a truthy value with its properties
  \<^verbatim>\<open>consolidatedData\<close>, \<^verbatim>\<open>lastUpdated\<close> and \<^verbatim>\<open>yearsCovered\<close>, each \<open>None\<close> when
  it is absent or falsy.
\<close>

record payload =
  consolidatedData :: "entity list option"
  lastUpdated :: "string option"
  yearsCovered :: "int list option"

datatype json = Falsy | Truthy payload

text \<open>
  The data file as \<^verbatim>\<open>loadChurchData\<close> meets it: \<^verbatim>\<open>fs.access\<close> rejects, or
  \<^verbatim>\<open>fs.readFile\<close> rejects, or the file has a content.
\<close>

datatype dataFile = NoFile | Unreadable error | Content string

text \<open>The module variables \<^verbatim>\<open>cachedData\<close> and \<^verbatim>\<open>lastLoaded\<close>, both \<^verbatim>\<open>null\<close> at first.\<close>

record loader =
  cachedData :: json
  lastLoaded :: "int option"

text \<open>\<^verbatim>\<open>cachedData && lastLoaded && (Date.now() - lastLoaded) < 60000\<close>\<close>

definition cache_valid :: "int \<Rightarrow> loader \<Rightarrow> bool" where
  "cache_valid now st \<longleftrightarrow>
     cachedData st \<noteq> Falsy \<and>
     (case lastLoaded st of None \<Rightarrow> False | Some t \<Rightarrow> t \<noteq> 0 \<and> now - t < 60000)"

text \<open>
  \<^verbatim>\<open>loadChurchData\<close>. \<^verbatim>\<open>JSON.parse\<close> is a parameter: it returns a value or throws.
  \<open>clock\<close> gives the readings of \<^verbatim>\<open>Date.now()\<close> in order. The result is what the
  function returns (\<open>Inr\<close>) or throws (\<open>Inl\<close>), and the module variables after the call.
  The \<^verbatim>\<open>catch\<close> of the function returns \<^verbatim>\<open>null\<close> for whatever was thrown.
\<close>

definition loadChurchData ::
  "(string \<Rightarrow> error + json) \<Rightarrow> (nat \<Rightarrow> int) \<Rightarrow> dataFile \<Rightarrow> loader \<Rightarrow> (error + json) \<times> loader" where
  "loadChurchData JSON_parse clock f st =
     (if cache_valid (clock 0) st then (Inr (cachedData st), st)
      else
        (case f of
           NoFile \<Rightarrow> (Inr Falsy, st)
         | Unreadable e \<Rightarrow> (Inr Falsy, st)
         | Content fileContent \<Rightarrow>
             (case JSON_parse fileContent of
                Inl e \<Rightarrow> (Inr Falsy, st)
              | Inr d \<Rightarrow> (Inr d, st\<lparr>cachedData := d, lastLoaded := Some (clock 1)\<rparr>))))"

text \<open>A reply: the status code and the JSON body.\<close>

record 'b reply =
  status :: nat
  body :: 'b

datatype data_body =
    DataError string
  | Data "entity list" "string option" nat "int list"

text \<open>The handler of \<^verbatim>\<open>GET /api/get-data\<close>: \<^verbatim>\<open>try { ... } catch (error) { 500 }\<close>.\<close>

definition get_data ::
  "(string \<Rightarrow> error + json) \<Rightarrow> (nat \<Rightarrow> int) \<Rightarrow> dataFile \<Rightarrow> loader \<Rightarrow> data_body reply \<times> loader" where
  "get_data JSON_parse clock f st =
     (case loadChurchData JSON_parse clock f st of
        (Inl e, st') \<Rightarrow>
          (\<lparr>status = 500, body = DataError ''Failed to load church data''\<rparr>, st')
      | (Inr Falsy, st') \<Rightarrow>
          (\<lparr>status = 404,
            body = DataError ''No church data found. Run /api/scrape-and-save first.''\<rparr>, st')
      | (Inr (Truthy p), st') \<Rightarrow>
          (case consolidatedData p of
             None \<Rightarrow>
               (\<lparr>status = 404,
                 body = DataError ''No church data found. Run /api/scrape-and-save first.''\<rparr>, st')
           | Some cd \<Rightarrow>
               (\<lparr>status = 200,
                 body = Data cd (lastUpdated p) (length cd)
                          (case yearsCovered p of None \<Rightarrow> [] | Some ys \<Rightarrow> ys)\<rparr>, st')))"

section \<open>GET /api/scrape-year/:year\<close>

text \<open>
  The handler of the second file of \<^verbatim>\<open>src/unnamed/part_000\<close> (lines 550 to 591); that
  file has its own copy of \<^verbatim>\<open>scrapeYearData\<close>, the same loop as the one above.

  \<^verbatim>\<open>parseInt(string)\<close> with no radix: leading white space is skipped, a sign is read,
  a prefix \<^verbatim>\<open>0x\<close> or \<^verbatim>\<open>0X\<close> selects base 16, and the longest prefix of digits of
  the base is the value; with no digit the result is \<^verbatim>\<open>NaN\<close>. The value is exact
  here; JavaScript rounds beyond \<open>2^53\<close>, far outside the range the handler compares with.
\<close>

definition hex_value :: "char \<Rightarrow> nat option" where
  "hex_value c =
     (if is_digit c then Some (of_char c - 48)
      else if c \<in> set ''abcdef'' then Some (of_char c - 87)
      else if c \<in> set ''ABCDEF'' then Some (of_char c - 55)
      else None)"

definition parse_digits :: "nat \<Rightarrow> string \<Rightarrow> int \<Rightarrow> jsnumber" where
  "parse_digits radix s sign =
     (let ds = takeWhile (\<lambda>c. hex_value c \<noteq> None \<and> the (hex_value c) < radix) s
      in if ds = [] then NaN
         else Num (sign * int (foldl (\<lambda>n c. radix * n + the (hex_value c)) 0 ds)))"

definition parse_unsigned :: "string \<Rightarrow> int \<Rightarrow> jsnumber" where
  "parse_unsigned s sign =
     (case s of
        c # d # r \<Rightarrow>
          if c = CHR ''0'' \<and> (d = CHR ''x'' \<or> d = CHR ''X'') then parse_digits 16 r sign
          else parse_digits 10 s sign
      | _ \<Rightarrow> parse_digits 10 s sign)"

definition parseInt :: "string \<Rightarrow> jsnumber" where
  "parseInt s =
     (case dropWhile is_space s of
        [] \<Rightarrow> NaN
      | c # r \<Rightarrow>
          if c = CHR ''-'' then parse_unsigned r (- 1)
          else if c = CHR ''+'' then parse_unsigned r 1
          else parse_unsigned (c # r) 1)"

text \<open>\<^verbatim>\<open>year < 2015 || year > 2024\<close>: every comparison with \<^verbatim>\<open>NaN\<close> is false.\<close>

definition out_of_range :: "jsnumber \<Rightarrow> bool" where
  "out_of_range y = (case y of NaN \<Rightarrow> False | Num i \<Rightarrow> i < 2015 \<or> 2024 < i)"

text \<open>A value of \<^verbatim>\<open>dataCache\<close>: \<^verbatim>\<open>{ data, timestamp }\<close>.\<close>

record cacheEntry =
  entry_data :: "church list"
  timestamp :: int

type_synonym dataCache = "string \<rightharpoonup> cacheEntry"

definition CACHE_DURATION :: int where
  "CACHE_DURATION = 24 * 60 * 60 * 1000"

text \<open>The JSON bodies the handler sends.\<close>

datatype year_body =
    ErrorBody string
  | DataBody "church list" bool int

text \<open>\<^verbatim>\<open>cached && (Date.now() - cached.timestamp) < CACHE_DURATION\<close>\<close>

definition fresh_entry :: "int \<Rightarrow> dataCache \<Rightarrow> string \<Rightarrow> cacheEntry option" where
  "fresh_entry now dataCache cacheKey =
     (case dataCache cacheKey of
        None \<Rightarrow> None
      | Some cached \<Rightarrow> if now - timestamp cached < CACHE_DURATION then Some cached else None)"

text \<open>
  The handler. \<open>clock\<close> gives the readings of \<^verbatim>\<open>Date.now()\<close> in the order the handler
  takes them: for the age of the cached entry, for the timestamp of a new entry, for
  \<^verbatim>\<open>scrapedAt\<close>. The result is the reply, the cache after the request and the URLs
  fetched while it ran.
\<close>

definition scrape_year ::
  "network \<Rightarrow> (nat \<Rightarrow> int) \<Rightarrow> dataCache \<Rightarrow> string
     \<Rightarrow> year_body reply \<times> dataCache \<times> string list" where
  "scrape_year fetch clock dataCache param =
     (let y = parseInt param in
      if out_of_range y
      then (\<lparr>status = 400, body = ErrorBody ''Year must be between 2015 and 2024''\<rparr>,
            dataCache, [])
      else
        (case fresh_entry (clock 0) dataCache (''year-'' @ string_of_number y) of
           Some cached \<Rightarrow>
             (\<lparr>status = 200, body = DataBody (entry_data cached) True (timestamp cached)\<rparr>,
              dataCache, [])
         | None \<Rightarrow>
             (case scrapeYearData fetch y of
                (fetched, Inl (Error message)) \<Rightarrow>
                  (\<lparr>status = 500,
                    body = ErrorBody (''Failed to scrape '' @ string_of_number y @ '' data: '' @ message)\<rparr>,
                   dataCache, fetched)
              | (fetched, Inr churches) \<Rightarrow>
                  (\<lparr>status = 200, body = DataBody churches False (clock 2)\<rparr>,
                   dataCache(''year-'' @ string_of_number y \<mapsto>
                     \<lparr>entry_data = churches, timestamp = clock 1\<rparr>),
                   fetched))))"

section \<open>Notions of the specification\<close>

text \<open>The number of records that carry a name, over all years.\<close>

definition record_count :: "yearlyData \<Rightarrow> string \<Rightarrow> nat" where
  "record_count yd n = length (filter (\<lambda>c. church.name c = n) (concat (map snd yd)))"

text \<open>The number of distinct years whose record list holds a name.\<close>

definition distinct_years :: "yearlyData \<Rightarrow> string \<Rightarrow> nat" where
  "distinct_years yd n =
     length (remdups (map fst (filter (\<lambda>yc. n \<in> set (map church.name (snd yc))) yd)))"

text \<open>No two entries are for the same year, and no year lists a name twice.\<close>

definition names_unique_per_year :: "yearlyData \<Rightarrow> bool" where
  "names_unique_per_year yd \<longleftrightarrow>
     distinct (map fst yd) \<and> list_all (\<lambda>yc. distinct (map church.name (snd yc))) yd"

text \<open>\<open>[1000, 100000]\<close>, the range of an attendance.\<close>

definition qualifying :: "int \<Rightarrow> bool" where
  "qualifying n \<longleftrightarrow> 1000 \<le> n \<and> n \<le> 100000"

text \<open>
  The attendance in the words of the specification: the first 3-to-6-digit number in
  \<open>[1000, 100000]\<close> met while the descendant texts are scanned in order, each text from
  left to right; \<open>None\<close> if there is none.
\<close>

definition spec_attendance :: "string list \<Rightarrow> int option" where
  "spec_attendance texts =
     List.find qualifying
       (concat (map (\<lambda>t. map decimal (number_matches False (trim t))) texts))"

text \<open>The number each descendant text offers to the scan of the source: that of its
  first match, if it has one.\<close>

definition offered :: "string list \<Rightarrow> int list" where
  "offered texts = List.map_filter (\<lambda>t. map_option decimal (numberMatch (trim t))) texts"

section \<open>Auxiliary notions for the proofs\<close>

text \<open>All records with their years, in the order the two nested loops visit them.\<close>

definition rows :: "yearlyData \<Rightarrow> (int \<times> church) list" where
  "rows yd = concat (map (\<lambda>yc. map (Pair (fst yc)) (snd yc)) yd)"

definition point_of :: "int \<times> church \<Rightarrow> dataPoint" where
  "point_of r =
     \<lparr>year = fst r, dataPoint.attendance = church.attendance (snd r),
      dataPoint.ranking = church.ranking (snd r)\<rparr>"

definition points :: "string \<Rightarrow> (int \<times> church) list \<Rightarrow> dataPoint list" where
  "points k rs = map point_of (filter (\<lambda>r. church.name (snd r) = k) rs)"

text \<open>The invariant of the grouping loops: the map has an entity for exactly the names
  seen, and its array holds the points of that name in the order visited.\<close>

definition grouped :: "churchMap \<Rightarrow> (int \<times> church) list \<Rightarrow> bool" where
  "grouped m rs \<longleftrightarrow>
     distinct (map fst m) \<and>
     (\<forall>k. case map_of m k of
            None \<Rightarrow> points k rs = []
          | Some e \<Rightarrow> entity.name e = k \<and> data e = points k rs \<and> points k rs \<noteq> [])"

section \<open>Sample inputs\<close>

definition org :: "string \<Rightarrow> int \<Rightarrow> church" where
  "org n r =
     \<lparr>church.name = n, church.location = ''Location not found'',
      church.pastor = ''Pastor not found'', church.attendance = None, church.ranking = r\<rparr>"

text \<open>Three years in which A and B are listed once each.\<close>

definition three_years :: yearlyData where
  "three_years =
     [(2017, [org ''A'' 5, org ''B'' 2]), (2015, [org ''B'' 1, org ''A'' 3]),
      (2016, [org ''A'' 4, org ''B'' 9])]"

text \<open>Three years with A in each and B in two of them.\<close>

definition three_and_two :: yearlyData where
  "three_and_two =
     [(2017, [org ''A'' 1, org ''B'' 2]), (2015, [org ''B'' 1, org ''A'' 2]),
      (2016, [org ''A'' 4])]"

text \<open>
  An anchor with the text \<open>n\<close> that has no \<^verbatim>\<open>div\<close>, \<^verbatim>\<open>section\<close> or \<^verbatim>\<open>article\<close> above
  it and no sibling before it, as in \<^verbatim>\<open><li><a href="/churches/x">n</a></li>\<close>: the
  container is the empty selection.
\<close>

definition named :: "string \<Rightarrow> anchor" where
  "named n =
     \<lparr>containerPrevText = [], linkPrevText = [], linkText = n, headingText = [],
      descendantTexts = []\<rparr>"

text \<open>
  An anchor with the text \<open>n\<close> alone in its container, whose sibling before holds the
  text \<open>r\<close>, as in \<^verbatim>\<open><span>r</span><div><a href="/churches/x">n</a></div>\<close>: the
  anchor is the only descendant of the container.
\<close>

definition listed :: "string \<Rightarrow> string \<Rightarrow> anchor" where
  "listed r n =
     \<lparr>containerPrevText = r, linkPrevText = [], linkText = n, headingText = [],
      descendantTexts = [n]\<rparr>"

definition not_found :: "error + response" where
  "not_found = Inr (Response False 404 ''Not Found'' (Inr []))"

definition ok_page :: "html \<Rightarrow> error + response" where
  "ok_page h = Inr (Response True 200 ''OK'' (Inr h))"

text \<open>A site with two pages of records for 2020 and an empty third page.\<close>

definition three_pages :: network where
  "three_pages u =
     (if u = url (Num 2020) 1 then ok_page [named ''A'', named ''B'']
      else if u = url (Num 2020) 2 then ok_page [named ''C'']
      else if u = url (Num 2020) 3 then ok_page []
      else not_found)"

text \<open>A site with two pages of records for 2020 and nothing else.\<close>

definition two_pages :: network where
  "two_pages u =
     (if u = url (Num 2020) 1 then ok_page [named ''A'', named ''B'']
      else if u = url (Num 2020) 2 then ok_page [named ''C'']
      else not_found)"

text \<open>A site that answers every request with an ok page that has no anchor.\<close>

definition empty_site :: network where
  "empty_site u = ok_page []"

text \<open>A site where every page has one record.\<close>

definition full_site :: network where
  "full_site u = ok_page [named ''A'']"

text \<open>A site with one page of records for 2020; every other request is rejected.\<close>

definition dropped_after_one :: network where
  "dropped_after_one u =
     (if u = url (Num 2020) 1 then ok_page [named ''A'', named ''B'']
      else Inl (Error ''socket hang up''))"

section \<open>The grouping loops of the consolidator\<close>

lemma has_iff: "has m k \<longleftrightarrow> k \<in> set (map fst m)"
  by (induction m) auto

lemma keys_set_entry:
  "map fst (set_entry m k v) = (if has m k then map fst m else map fst m @ [k])"
  by (induction m) auto

lemma map_of_set_entry: "map_of (set_entry m k v) = (map_of m)(k \<mapsto> v)"
  by (induction m) (auto simp: fun_eq_iff)

lemma keys_push_data: "map fst (push_data m k d) = map fst m"
  by (induction m) auto

lemma map_of_push_data:
  "map_of (push_data m k d) k' =
     (if k' = k then map_option (\<lambda>v. v\<lparr>data := data v @ [d]\<rparr>) (map_of m k') else map_of m k')"
  by (induction m) auto

lemma keys_add_church:
  "map fst (add_church y m c) =
     (if church.name c \<in> set (map fst m) then map fst m else map fst m @ [church.name c])"
  by (simp add: add_church_def Let_def keys_push_data keys_set_entry has_iff)

lemma distinct_add_church:
  "distinct (map fst m) \<Longrightarrow> distinct (map fst (add_church y m c))"
  by (simp add: keys_add_church)

lemma map_of_add_church_other:
  "k \<noteq> church.name c \<Longrightarrow> map_of (add_church y m c) k = map_of m k"
  by (simp add: add_church_def Let_def map_of_push_data map_of_set_entry)

lemma map_of_add_church_new:
  "church.name c \<notin> set (map fst m) \<Longrightarrow>
   map_of (add_church y m c) (church.name c) =
     Some \<lparr>entity.name = church.name c, entity.location = church.location c,
           entity.pastor = church.pastor c, data = [point_of (y, c)]\<rparr>"
  by (simp add: add_church_def Let_def map_of_push_data map_of_set_entry has_iff point_of_def)

lemma map_of_add_church_old:
  "map_of m (church.name c) = Some e \<Longrightarrow>
   map_of (add_church y m c) (church.name c) = Some (e\<lparr>data := data e @ [point_of (y, c)]\<rparr>)"
proof -
  assume a: "map_of m (church.name c) = Some e"
  then have "church.name c \<in> set (map fst m)"
    by (metis map_of_eq_None_iff option.distinct(1) set_map)
  with a show ?thesis
    by (simp add: add_church_def Let_def map_of_push_data has_iff point_of_def)
qed

lemma grouped_Nil: "grouped [] []"
  by (simp add: grouped_def points_def)

lemma points_snoc:
  "points k (rs @ [(y, c)]) = (if church.name c = k then points k rs @ [point_of (y, c)] else points k rs)"
  by (simp add: points_def)

lemma grouped_step:
  assumes "grouped m rs"
  shows "grouped (add_church y m c) (rs @ [(y, c)])"
  unfolding grouped_def
proof (intro conjI allI)
  show "distinct (map fst (add_church y m c))"
    using assms by (simp add: grouped_def distinct_add_church)
next
  fix k
  have g: "case map_of m k of None \<Rightarrow> points k rs = []
          | Some e \<Rightarrow> entity.name e = k \<and> data e = points k rs \<and> points k rs \<noteq> []"
    using assms by (simp add: grouped_def)
  show "case map_of (add_church y m c) k of
          None \<Rightarrow> points k (rs @ [(y, c)]) = []
        | Some e \<Rightarrow> entity.name e = k \<and> data e = points k (rs @ [(y, c)]) \<and> points k (rs @ [(y, c)]) \<noteq> []"
  proof (cases "k = church.name c")
    case False
    then have "church.name c \<noteq> k" by auto
    with False g show ?thesis
      by (simp add: map_of_add_church_other points_snoc split: option.splits)
  next
    case True
    show ?thesis
    proof (cases "map_of m (church.name c)")
      case None
      then have "church.name c \<notin> set (map fst m)"
        by (simp add: map_of_eq_None_iff)
      with g None True show ?thesis
        by (simp add: map_of_add_church_new points_snoc split: option.splits)
    next
      case (Some e)
      with g True show ?thesis
        by (simp add: map_of_add_church_old points_snoc split: option.splits)
    qed
  qed
qed

lemma grouped_foldl_church:
  "grouped m rs \<Longrightarrow> grouped (foldl (add_church y) m cs) (rs @ map (Pair y) cs)"
proof (induction cs arbitrary: m rs)
  case Nil
  then show ?case by simp
next
  case (Cons c cs)
  from Cons.IH [OF grouped_step [OF Cons.prems, of y c]]
  show ?case by simp
qed

lemma grouped_foldl_year:
  "grouped m rs \<Longrightarrow> grouped (foldl add_year m yd) (rs @ rows yd)"
proof (induction yd arbitrary: m rs)
  case Nil
  then show ?case by (simp add: rows_def)
next
  case (Cons yc yd)
  have "grouped (add_year m yc) (rs @ map (Pair (fst yc)) (snd yc))"
    unfolding add_year_def by (rule grouped_foldl_church [OF Cons.prems])
  from Cons.IH [OF this] show ?case
    by (simp add: rows_def)
qed

lemma grouped_churchMap: "grouped (foldl add_year [] yd) (rows yd)"
  using grouped_foldl_year [OF grouped_Nil, of yd] by simp


lemma map_snd_rows: "map snd (rows yd) = concat (map snd yd)"
  by (induction yd) (simp_all add: rows_def comp_def)

lemma length_points: "length (points n (rows yd)) = record_count yd n"
proof -
  have "length (filter (\<lambda>r. church.name (snd r) = n) (rows yd)) =
        length (filter (\<lambda>c. church.name c = n) (map snd (rows yd)))"
    by (simp add: filter_map comp_def)
  then show ?thesis
    by (simp add: points_def record_count_def map_snd_rows)
qed

lemma year_points: "map year (points n rs) = map fst (filter (\<lambda>r. church.name (snd r) = n) rs)"
  by (simp add: points_def point_of_def comp_def)

lemma grouped_entity:
  assumes "grouped m rs" and "e \<in> set (map snd m)"
  shows "data e = points (entity.name e) rs"
proof -
  from assms(2) obtain k where "(k, e) \<in> set m" by auto
  moreover from assms(1) have "distinct (map fst m)" by (simp add: grouped_def)
  ultimately have "map_of m k = Some e" by simp
  moreover from assms(1) have "case map_of m k of None \<Rightarrow> points k rs = []
      | Some e \<Rightarrow> entity.name e = k \<and> data e = points k rs \<and> points k rs \<noteq> []"
    by (simp add: grouped_def)
  ultimately show ?thesis by simp
qed

lemma grouped_present:
  assumes "grouped m rs" and "points n rs \<noteq> []"
  shows "\<exists>e \<in> set (map snd m). entity.name e = n"
proof -
  from assms(1) have c: "case map_of m n of None \<Rightarrow> points n rs = []
      | Some e \<Rightarrow> entity.name e = n \<and> data e = points n rs \<and> points n rs \<noteq> []"
    by (simp add: grouped_def)
  with assms(2) obtain e where e: "map_of m n = Some e" by (cases "map_of m n") auto
  then have "(n, e) \<in> set m" by (rule map_of_SomeD)
  then have "e \<in> set (map snd m)" by force
  moreover from c e have "entity.name e = n" by simp
  ultimately show ?thesis by blast
qed

lemma set_consolidate:
  "set (consolidateChurchData yd) =
     (\<lambda>church. church\<lparr>data := sort_by year (data church)\<rparr>) `
       {church \<in> set (map snd (foldl add_year [] yd)). 3 \<le> length (data church)}"
  by (simp add: consolidateChurchData_def Let_def sort_by_def)

lemma name_in_consolidate:
  "n \<in> set (map entity.name (consolidateChurchData yd)) \<longleftrightarrow> 3 \<le> record_count yd n"
proof
  assume "n \<in> set (map entity.name (consolidateChurchData yd))"
  then obtain e where e: "e \<in> set (map snd (foldl add_year [] yd))" "3 \<le> length (data e)"
      "entity.name e = n"
    by (fastforce simp: set_consolidate)
  from grouped_entity [OF grouped_churchMap e(1)] e(2,3) show "3 \<le> record_count yd n"
    by (simp add: length_points)
next
  assume a: "3 \<le> record_count yd n"
  then have "points n (rows yd) \<noteq> []"
    by (metis length_points list.size(3) not_numeral_le_zero)
  from grouped_present [OF grouped_churchMap this]
  obtain e where e: "e \<in> set (map snd (foldl add_year [] yd))" "entity.name e = n" by blast
  from grouped_entity [OF grouped_churchMap e(1)] e(2) a have "3 \<le> length (data e)"
    by (simp add: length_points)
  with e have "e\<lparr>data := sort_by year (data e)\<rparr> \<in> set (consolidateChurchData yd)"
    unfolding set_consolidate by blast
  then have "entity.name (e\<lparr>data := sort_by year (data e)\<rparr>) \<in> set (map entity.name (consolidateChurchData yd))"
    by (metis imageI set_map)
  with e(2) show "n \<in> set (map entity.name (consolidateChurchData yd))" by simp
qed

lemma filter_distinct_le1:
  "distinct (map f cs) \<Longrightarrow> length (filter (\<lambda>c. f c = k) cs) = (if k \<in> set (map f cs) then 1 else 0)"
  by (induction cs) auto

lemma count_eq_years:
  "names_unique_per_year yd \<Longrightarrow> record_count yd n = distinct_years yd n"
proof -
  assume a: "names_unique_per_year yd"
  then have d: "distinct (map fst yd)" and u: "list_all (\<lambda>yc. distinct (map church.name (snd yc))) yd"
    by (simp_all add: names_unique_per_year_def)
  from u have "record_count yd n = length (filter (\<lambda>yc. n \<in> set (map church.name (snd yc))) yd)"
    unfolding record_count_def
    by (induction yd) (simp_all add: filter_distinct_le1)
  moreover from d have "distinct (map fst (filter (\<lambda>yc. n \<in> set (map church.name (snd yc))) yd))"
    by (simp add: distinct_map_filter)
  ultimately show ?thesis
    by (simp add: distinct_years_def distinct_remdups_id)
qed

lemma distinct_years_of_name:
  assumes "names_unique_per_year yd"
  shows "distinct (map fst (filter (\<lambda>r. church.name (snd r) = n) (rows yd)))"
  using assms
proof (induction yd)
  case Nil
  then show ?case by (simp add: rows_def)
next
  case (Cons yc yd)
  from Cons.prems have u: "names_unique_per_year yd" and dn: "distinct (map church.name (snd yc))"
    and fresh: "fst yc \<notin> fst ` set yd"
    by (simp_all add: names_unique_per_year_def)
  have r: "rows (yc # yd) = map (Pair (fst yc)) (snd yc) @ rows yd"
    by (simp add: rows_def)
  have h: "map fst (filter (\<lambda>r. church.name (snd r) = n) (map (Pair (fst yc)) (snd yc))) =
        replicate (length (filter (\<lambda>c. church.name c = n) (snd yc))) (fst yc)"
    by (induction "snd yc") (simp_all add: filter_map comp_def map_replicate_const)
  have l: "length (filter (\<lambda>c. church.name c = n) (snd yc)) \<le> 1"
    using dn by (simp add: filter_distinct_le1)
  have d1: "distinct (replicate (length (filter (\<lambda>c. church.name c = n) (snd yc))) (fst yc))"
  proof -
    from l have "length (filter (\<lambda>c. church.name c = n) (snd yc)) = 0 \<or>
        length (filter (\<lambda>c. church.name c = n) (snd yc)) = 1" by linarith
    then show ?thesis by (elim disjE) simp_all
  qed
  have s: "fst ` set (rows yd) \<subseteq> fst ` set yd"
    by (force simp: rows_def)
  with fresh have "fst yc \<notin> set (map fst (filter (\<lambda>r. church.name (snd r) = n) (rows yd)))"
    by auto
  then have dj: "set (replicate (length (filter (\<lambda>c. church.name c = n) (snd yc))) (fst yc)) \<inter>
      set (map fst (filter (\<lambda>r. church.name (snd r) = n) (rows yd))) = {}"
    by (auto simp del: set_map set_filter)
  have "map fst (filter (\<lambda>r. church.name (snd r) = n) (rows (yc # yd))) =
      replicate (length (filter (\<lambda>c. church.name c = n) (snd yc))) (fst yc) @
      map fst (filter (\<lambda>r. church.name (snd r) = n) (rows yd))"
    unfolding r by (simp add: h)
  moreover have "distinct (replicate (length (filter (\<lambda>c. church.name c = n) (snd yc))) (fst yc) @
      map fst (filter (\<lambda>r. church.name (snd r) = n) (rows yd)))"
    using Cons.IH [OF u] d1 dj by (simp only: distinct_append simp_thms)
  ultimately show ?case by simp
qed

lemma series_of_consolidate:
  assumes "e \<in> set (consolidateChurchData yd)"
  shows "\<exists>ps. data e = sort_by year ps \<and> ps = points (entity.name e) (rows yd) \<and> 3 \<le> length ps"
proof -
  from assms obtain e0 where e0: "e0 \<in> set (map snd (foldl add_year [] yd))"
      "3 \<le> length (data e0)" "e = e0\<lparr>data := sort_by year (data e0)\<rparr>"
    unfolding set_consolidate by blast
  from grouped_entity [OF grouped_churchMap e0(1)] e0(2,3) show ?thesis by simp
qed

section \<open>Which organizations the consolidator keeps\<close>

text \<open>
  As the claim C1 states it, an organization is in the output if and only if it has
  records in at least 3 distinct years. Three records under one year are enough for the
  filter \<^verbatim>\<open>church.data.length >= 3\<close>: the organization is in the output with one year.
\<close>

theorem same_year_records_counted_as_years:
  "''A'' \<in> set (map entity.name
      (consolidateChurchData [(2015, [org ''A'' 1, org ''A'' 2, org ''A'' 3])])) \<and>
   \<not> 3 \<le> distinct_years [(2015, [org ''A'' 1, org ''A'' 2, org ''A'' 3])] ''A''"
  by (simp add: consolidateChurchData_def add_year_def add_church_def Let_def sort_by_def
      latest_ranking_def org_def distinct_years_def)

text \<open>
  C1, as amended. For every mapping of years to record lists, an organization is an entity
  of the output of \<^verbatim>\<open>consolidateChurchData\<close> if and only if the record lists hold at
  least 3 records with its name in all, a name listed twice under one year counting twice.
  When no two entries are for the same year and no year lists a name twice, that number
  is the number of distinct years with a record of the name.
\<close>

theorem consolidate_includes_iff_three_records:
  "(n \<in> set (map entity.name (consolidateChurchData yd)) \<longleftrightarrow> 3 \<le> record_count yd n) \<and>
   (names_unique_per_year yd \<longrightarrow> record_count yd n = distinct_years yd n)"
proof (intro conjI impI)
  show "n \<in> set (map entity.name (consolidateChurchData yd)) \<longleftrightarrow> 3 \<le> record_count yd n"
    by (rule name_in_consolidate)
next
  assume "names_unique_per_year yd"
  then show "record_count yd n = distinct_years yd n"
    by (rule count_eq_years)
qed

theorem consolidate_includes_iff_three_records_witness:
  "names_unique_per_year three_and_two \<and>
   distinct_years three_and_two ''A'' = 3 \<and>
   ''A'' \<in> set (map entity.name (consolidateChurchData three_and_two)) \<and>
   distinct_years three_and_two ''B'' = 2 \<and>
   ''B'' \<notin> set (map entity.name (consolidateChurchData three_and_two))"
proof -
  have u: "names_unique_per_year three_and_two"
    by (simp add: names_unique_per_year_def three_and_two_def org_def)
  have a: "record_count three_and_two ''A'' = 3" and b: "record_count three_and_two ''B'' = 2"
    by (simp_all add: record_count_def three_and_two_def org_def)
  from consolidate_includes_iff_three_records [of "''A''" three_and_two]
    consolidate_includes_iff_three_records [of "''B''" three_and_two] u a b
  show ?thesis by simp
qed

section \<open>Ordering of the consolidated output\<close>

lemma last_of_sorted:
  "sorted (map f xs) \<Longrightarrow> x \<in> set xs \<Longrightarrow> f x \<le> f (last xs)"
  by (induction xs) auto

lemmas consolidate_eval = consolidateChurchData_def add_year_def add_church_def Let_def
  sort_by_def latest_ranking_def org_def

text \<open>
  C2. For every input mapping, the entity list returned by \<^verbatim>\<open>consolidateChurchData\<close> is
  ordered so that the rank of each entity's last series element is non-decreasing along
  the list; the last element of a series is a most recent one, no element of the series
  having a later year.
\<close>

theorem consolidate_sorted_by_latest_ranking:
  "sorted (map (\<lambda>e. dataPoint.ranking (last (data e))) (consolidateChurchData yearlyData)) \<and>
   (\<forall>e \<in> set (consolidateChurchData yearlyData). \<forall>d \<in> set (data e).
      year d \<le> year (last (data e)))"
proof (intro conjI ballI)
  have "sorted (map latest_ranking (consolidateChurchData yearlyData))"
    unfolding consolidateChurchData_def Let_def sort_by_def by (rule sorted_sort_key)
  then show "sorted (map (\<lambda>e. dataPoint.ranking (last (data e)))
      (consolidateChurchData yearlyData))"
    by (simp add: latest_ranking_def [abs_def])
next
  fix e d
  assume "e \<in> set (consolidateChurchData yearlyData)" and d: "d \<in> set (data e)"
  from series_of_consolidate [OF this(1)] have "sorted (map year (data e))"
    by (auto simp: sort_by_def)
  from last_of_sorted [OF this d] show "year d \<le> year (last (data e))" .
qed

theorem consolidate_sorted_by_latest_ranking_witness:
  "map (\<lambda>e. (entity.name e, map year (data e), dataPoint.ranking (last (data e))))
     (consolidateChurchData three_years) =
     [(''B'', [2015, 2016, 2017], 2), (''A'', [2015, 2016, 2017], 5)] \<and>
   sorted [2, 5 :: int] \<and>
   hd (consolidateChurchData three_years) \<in> set (consolidateChurchData three_years) \<and>
   hd (data (hd (consolidateChurchData three_years)))
     \<in> set (data (hd (consolidateChurchData three_years))) \<and>
   year (hd (data (hd (consolidateChurchData three_years))))
     \<le> year (last (data (hd (consolidateChurchData three_years))))"
proof -
  have v: "map (\<lambda>e. (entity.name e, map year (data e), dataPoint.ranking (last (data e))))
      (consolidateChurchData three_years) =
      [(''B'', [2015, 2016, 2017], 2), (''A'', [2015, 2016, 2017], 5)]"
    by (simp add: consolidate_eval three_years_def)
  have r: "map (\<lambda>e. dataPoint.ranking (last (data e))) (consolidateChurchData three_years) = [2, 5]"
    by (simp add: consolidate_eval three_years_def)
  have "consolidateChurchData three_years \<noteq> []"
    using v by auto
  then have e: "hd (consolidateChurchData three_years) \<in> set (consolidateChurchData three_years)"
    by (rule hd_in_set)
  have "data (hd (consolidateChurchData three_years)) \<noteq> []"
    by (simp add: consolidate_eval three_years_def)
  then have d: "hd (data (hd (consolidateChurchData three_years)))
      \<in> set (data (hd (consolidateChurchData three_years)))"
    by (rule hd_in_set)
  note t = consolidate_sorted_by_latest_ranking [of three_years]
  from t r have s: "sorted [2, 5 :: int]" by (simp only:)
  from t e d have "year (hd (data (hd (consolidateChurchData three_years))))
      \<le> year (last (data (hd (consolidateChurchData three_years))))"
    by blast
  with v s e d show ?thesis by (intro conjI)
qed

section \<open>Ordering of each series\<close>

text \<open>
  As the claim C3 states it, every series is strictly ascending by year. A name listed
  twice under 2015 has two points of that year in its series.
\<close>

theorem series_repeats_year:
  "map entity.name
     (consolidateChurchData [(2015, [org ''A'' 1, org ''A'' 2]), (2016, [org ''A'' 1])]) =
     [''A''] \<and>
   map year (data (hd
     (consolidateChurchData [(2015, [org ''A'' 1, org ''A'' 2]), (2016, [org ''A'' 1])]))) =
     [2015, 2015, 2016] \<and>
   \<not> sorted_wrt (<) (map year (data (hd
     (consolidateChurchData [(2015, [org ''A'' 1, org ''A'' 2]), (2016, [org ''A'' 1])]))))"
  by (simp add: consolidate_eval)

text \<open>
  C3, as amended. For every input mapping, every entity of the output of
  \<^verbatim>\<open>consolidateChurchData\<close> has a series that is ascending by year; it is strictly
  ascending, with no two elements of the same year, when no two entries of the mapping
  are for the same year and no year lists a name twice.
\<close>

theorem consolidate_series_ascending:
  "e \<in> set (consolidateChurchData yd) \<Longrightarrow>
   sorted (map year (data e)) \<and>
   (names_unique_per_year yd \<longrightarrow> sorted_wrt (<) (map year (data e)))"
proof -
  assume "e \<in> set (consolidateChurchData yd)"
  from series_of_consolidate [OF this]
  have d: "data e = sort_by year (points (entity.name e) (rows yd))" by blast
  then have s: "sorted (map year (data e))"
    by (simp add: sort_by_def)
  have "sorted_wrt (<) (map year (data e))" if "names_unique_per_year yd"
  proof -
    from distinct_years_of_name [OF that, of "entity.name e"]
    have "distinct (map year (points (entity.name e) (rows yd)))"
      by (simp add: year_points)
    then have "distinct (map year (data e))"
      unfolding d sort_by_def
      by (metis distinct_map distinct_sort set_sort)
    with s show ?thesis
      by (simp add: strict_sorted_iff)
  qed
  with s show ?thesis by blast
qed

theorem consolidate_series_ascending_witness:
  "hd (consolidateChurchData three_and_two) \<in> set (consolidateChurchData three_and_two) \<and>
   names_unique_per_year three_and_two \<and>
   map year (data (hd (consolidateChurchData three_and_two))) = [2015, 2016, 2017] \<and>
   sorted_wrt (<) (map year (data (hd (consolidateChurchData three_and_two))))"
proof -
  have u: "names_unique_per_year three_and_two"
    by (simp add: names_unique_per_year_def three_and_two_def org_def)
  have v: "map year (data (hd (consolidateChurchData three_and_two))) = [2015, 2016, 2017]"
    by (simp add: consolidate_eval three_and_two_def)
  have "consolidateChurchData three_and_two \<noteq> []"
    by (simp add: consolidate_eval three_and_two_def)
  then have m: "hd (consolidateChurchData three_and_two) \<in> set (consolidateChurchData three_and_two)"
    by (rule hd_in_set)
  from consolidate_series_ascending [OF m] u m v show ?thesis by blast
qed

section \<open>The two texts of the consolidator\<close>

lemma add_church_same: "add_church_part000 = add_church"
  by (intro ext) (simp add: add_church_part000_def add_church_def)

text \<open>
  C10. The function \<^verbatim>\<open>consolidateChurchData\<close> of \<^verbatim>\<open>src/server.js\<close> and the one of
  \<^verbatim>\<open>src/unnamed/part_000\<close> are extensionally equal: for every mapping of years to
  record lists they return the same output.
\<close>

theorem consolidators_agree:
  "consolidateChurchData_part000 yearlyData = consolidateChurchData yearlyData"
proof -
  have "(\<lambda>m yc. foldl (add_church_part000 (fst yc)) m (snd yc)) = add_year"
    by (intro ext) (simp add: add_year_def add_church_same)
  moreover have "(\<lambda>a. dataPoint.ranking (last (data a))) = latest_ranking"
    by (intro ext) (simp add: latest_ranking_def)
  ultimately show ?thesis
    by (simp add: consolidateChurchData_part000_def consolidateChurchData_def)
qed

section \<open>The rank of an extracted record\<close>

lemma decimal_nonneg: "0 \<le> decimal t"
  by (simp add: decimal_def)

lemma find_ranking_Some:
  "find_ranking ts = Some r \<Longrightarrow> 0 \<le> r \<and> r \<le> 100"
  by (induction ts) (auto simp: rank_candidate_def decimal_nonneg split: if_splits)

lemma find_ranking_None:
  "find_ranking ts = None \<longleftrightarrow> list_all (\<lambda>t. \<not> rank_candidate t) ts"
  by (induction ts) auto

lemma final_ranking_bounds:
  assumes "r = None \<or> (\<exists>n. r = Some n \<and> 0 \<le> n \<and> n \<le> 100)"
  shows "1 \<le> final_ranking index r \<and>
         (final_ranking index r \<le> 100 \<or> final_ranking index r = int index + 1)"
  using assms by (auto simp: final_ranking_def)

lemma parse_anchor_ranking:
  assumes "parse_anchor index a = Some c"
  shows "1 \<le> church.ranking c \<and>
         (church.ranking c \<le> 100 \<or> church.ranking c = int index + 1) \<and>
         (list_all (\<lambda>t. \<not> rank_candidate t) (rankingSelectors a) \<longrightarrow>
            church.ranking c = int index + 1)"
proof -
  let ?r = "find_ranking (rankingSelectors a)"
  from assms have c: "church.ranking c = final_ranking index ?r"
    by (auto simp: parse_anchor_def Let_def split: if_splits)
  have "?r = None \<or> (\<exists>n. ?r = Some n \<and> 0 \<le> n \<and> n \<le> 100)"
    using find_ranking_Some [of "rankingSelectors a"] by (cases ?r) auto
  from final_ranking_bounds [OF this, of index]
  have b: "1 \<le> church.ranking c \<and> (church.ranking c \<le> 100 \<or> church.ranking c = int index + 1)"
    by (simp add: c)
  have "church.ranking c = int index + 1"
    if "list_all (\<lambda>t. \<not> rank_candidate t) (rankingSelectors a)"
  proof -
    from that have "?r = None" by (simp add: find_ranking_None)
    then show ?thesis by (simp add: c final_ranking_def)
  qed
  with b show ?thesis by blast
qed

lemma pushed_origin:
  "c \<in> set (pushed k page) \<Longrightarrow> \<exists>i<length page. parse_anchor (k + i) (page ! i) = Some c"
proof (induction page arbitrary: k)
  case Nil
  then show ?case by simp
next
  case (Cons a page)
  show ?case
  proof (cases "parse_anchor k a = Some c")
    case True
    then have "parse_anchor (k + 0) ((a # page) ! 0) = Some c" by simp
    then show ?thesis by blast
  next
    case False
    with Cons.prems have "c \<in> set (pushed (Suc k) page)"
      by (auto split: option.splits)
    from Cons.IH [OF this] obtain i where "i < length page"
      "parse_anchor (Suc k + i) (page ! i) = Some c" by blast
    then have "Suc i < length (a # page) \<and> parse_anchor (k + Suc i) ((a # page) ! Suc i) = Some c"
      by simp
    then show ?thesis by blast
  qed
qed

lemmas extractor_eval = is_space_def is_digit_def is_upper_def is_lower_def is_word_def trim_def
  digit_value_def decimal_def all_digits_def numberMatch_def location_pattern_def
  firstDescendantText_def rankingSelectors_def rank_candidate_def final_ranking_def churchName_def
  scan_location_pastor_def attendance_step_def extract_attendance_def parse_anchor_def
  parseChurchesFromHTML_def sort_by_def named_def Let_def

text \<open>
  As the claim C4 states it, every record has a rank of at most 100. On a page with 101
  anchors and no rank text, the last anchor gets the rank 101; here it is the only one
  with a name, so the only record.
\<close>

theorem fallback_rank_exceeds_100:
  "map church.ranking (parseChurchesFromHTML (replicate 100 (named []) @ [named ''A''])) = [101]"
  by code_simp

text \<open>
  C4, as amended. For every page, every record \<^verbatim>\<open>parseChurchesFromHTML\<close> returns has a
  rank that is a positive integer, and comes from an anchor of the page such that the
  rank is at most 100 or is the anchor's 1-based position among all matched anchors;
  when none of the three preceding-text candidates is a pure integer of at most 100, the
  rank is that position.
\<close>

theorem emitted_rank_positive_and_fallback:
  "c \<in> set (parseChurchesFromHTML page) \<Longrightarrow>
   1 \<le> church.ranking c \<and>
   (\<exists>index<length page.
      parse_anchor index (page ! index) = Some c \<and>
      (church.ranking c \<le> 100 \<or> church.ranking c = int index + 1) \<and>
      (list_all (\<lambda>t. \<not> rank_candidate t) (rankingSelectors (page ! index)) \<longrightarrow>
         church.ranking c = int index + 1))"
proof -
  assume "c \<in> set (parseChurchesFromHTML page)"
  then have "c \<in> set (pushed 0 page)"
    by (simp add: parseChurchesFromHTML_def sort_by_def)
  from pushed_origin [OF this] obtain i where i: "i < length page"
    "parse_anchor i (page ! i) = Some c" by auto
  from parse_anchor_ranking [OF i(2)] i show ?thesis by blast
qed

theorem emitted_rank_positive_and_fallback_witness:
  "parseChurchesFromHTML [listed ''7'' ''A'', named ''B''] = [org ''B'' 2, org ''A'' 7] \<and>
   org ''B'' 2 \<in> set (parseChurchesFromHTML [listed ''7'' ''A'', named ''B'']) \<and>
   1 \<le> church.ranking (org ''B'' 2)"
proof -
  have v: "parseChurchesFromHTML [listed ''7'' ''A'', named ''B''] = [org ''B'' 2, org ''A'' 7]"
    by (simp add: extractor_eval org_def listed_def)
  then have m: "org ''B'' 2 \<in> set (parseChurchesFromHTML [listed ''7'' ''A'', named ''B''])"
    by simp
  from emitted_rank_positive_and_fallback [OF m] v m show ?thesis by blast
qed

section \<open>The attendance of an extracted record\<close>

lemma attendance_kept:
  "qualifying v \<Longrightarrow> foldl attendance_step (Some v) texts = Some v"
proof (induction texts)
  case Nil
  then show ?case by simp
next
  case (Cons t texts)
  from Cons.prems have "v \<noteq> 0" by (auto simp: qualifying_def)
  then have "attendance_step (Some v) t = Some v"
    by (simp add: attendance_step_def split: option.splits)
  with Cons show ?case by simp
qed

text \<open>
  As the claim C5 states it, the attendance is the first 3-to-6-digit number in
  \<open>[1000, 100000]\<close> met in the scan. Of the descendant texts \<^verbatim>\<open>Grace Church\<close> and
  \<^verbatim>\<open>500 2000\<close> the second holds such a number, 2000, but \<^verbatim>\<open>text.match\<close> yields its
  first run only, 500, which is out of range: the attendance stays \<^verbatim>\<open>null\<close>.
\<close>

theorem attendance_skips_later_run:
  "extract_attendance [''Grace Church'', ''500 2000''] = None \<and>
   spec_attendance [''Grace Church'', ''500 2000''] = Some 2000"
  by (simp add: extractor_eval spec_attendance_def qualifying_def)

text \<open>
  C5, as amended. For every container, each descendant text offers at most one number,
  that of its first run of 3 to 6 digits between word boundaries; the attendance is the
  first offered number in \<open>[1000, 100000]\<close>, in the order of the scan (later ones never
  overwrite it), or \<^verbatim>\<open>null\<close> if no text offers such a number.
\<close>

theorem attendance_is_first_qualifying_offer:
  "extract_attendance texts = List.find qualifying (offered texts)"
  unfolding extract_attendance_def
proof (induction texts)
  case Nil
  then show ?case by (simp add: offered_def List.map_filter_simps)
next
  case (Cons t texts)
  show ?case
  proof (cases "numberMatch (trim t)")
    case None
    with Cons show ?thesis
      by (simp add: attendance_step_def offered_def List.map_filter_simps)
  next
    case (Some m)
    show ?thesis
    proof (cases "qualifying (decimal m)")
      case True
      with Some have "attendance_step None t = Some (decimal m)"
        by (simp add: attendance_step_def qualifying_def)
      with True Some show ?thesis
        by (simp add: attendance_kept offered_def List.map_filter_simps)
    next
      case False
      with Some have "attendance_step None t = None"
        by (auto simp: attendance_step_def qualifying_def)
      with False Some Cons show ?thesis
        by (simp add: offered_def List.map_filter_simps)
    qed
  qed
qed

section \<open>The page loop of the year scraper\<close>

lemma page_records_nonempty:
  assumes "page_records fetch y q \<noteq> []"
  shows "\<exists>st msg h. fetch (url y q) = Inr (Response True st msg (Inr h)) \<and>
           parseChurchesFromHTML h = page_records fetch y q"
  using assms unfolding page_records_def
  by (auto split: sum.splits response.splits bool.splits)

lemma scrape_loop_nonempty_page:
  assumes "page \<le> 10" and "page_records fetch y page \<noteq> []"
  shows "scrape_loop fetch y cs page True fetched =
         scrape_loop fetch y (cs @ page_records fetch y page) (Suc page) True
           (fetched @ [url y page])"
proof -
  from page_records_nonempty [OF assms(2)] obtain st msg h where
    h: "fetch (url y page) = Inr (Response True st msg (Inr h))"
       "parseChurchesFromHTML h = page_records fetch y page" by blast
  with assms show ?thesis
    by (subst scrape_loop.simps) simp
qed

lemma scrape_loop_run:
  assumes "\<forall>q. page \<le> q \<and> q < page + n \<longrightarrow> page_records fetch y q \<noteq> []"
    and "page + n \<le> 11"
  shows "scrape_loop fetch y cs page True fetched =
         scrape_loop fetch y (cs @ concat (map (page_records fetch y) [page..<page + n]))
           (page + n) True (fetched @ map (url y) [page..<page + n])"
  using assms
proof (induction n arbitrary: page cs fetched)
  case 0
  then show ?case by simp
next
  case (Suc n)
  have ne: "page_records fetch y page \<noteq> []" using Suc.prems(1) by simp
  have le: "page \<le> 10" using Suc.prems(2) by simp
  have rest: "\<forall>q. Suc page \<le> q \<and> q < Suc page + n \<longrightarrow> page_records fetch y q \<noteq> []"
    using Suc.prems(1) by simp
  have bound: "Suc page + n \<le> 11" using Suc.prems(2) by simp
  have up: "[page..<page + Suc n] = page # [Suc page..<Suc page + n]"
    by (simp add: upt_conv_Cons)
  show ?case
    unfolding scrape_loop_nonempty_page [OF le ne] Suc.IH [OF rest bound] up
    by simp
qed

lemma scrape_loop_stop_not_ok:
  assumes "fetch (url y page) = Inr (Response False st msg bd)" and "page \<le> 10"
  shows "scrape_loop fetch y cs page True fetched =
         (fetched @ [url y page], if page = 1 then Inl (http_error st msg) else Inr cs)"
  using assms by (subst scrape_loop.simps) simp

lemma scrape_loop_stop_empty:
  assumes "fetch (url y page) = Inr (Response True st msg (Inr h))"
    and "parseChurchesFromHTML h = []" and "page \<le> 10"
  shows "scrape_loop fetch y cs page True fetched = (fetched @ [url y page], Inr cs)"
proof -
  have "scrape_loop fetch y cs page False (fetched @ [url y page]) = (fetched @ [url y page], Inr cs)"
    by (subst scrape_loop.simps) simp
  with assms show ?thesis
    by (subst scrape_loop.simps) simp
qed

lemma scrape_until:
  assumes "1 \<le> p" and "p \<le> 10" and "\<forall>q. 1 \<le> q \<and> q < p \<longrightarrow> page_records fetch y q \<noteq> []"
  shows "scrapeYearData fetch y =
         scrape_loop fetch y (concat (map (page_records fetch y) [1..<p])) p True
           (map (url y) [1..<p])"
proof -
  obtain n where n: "p = 1 + n" using assms(1) by (metis le_Suc_ex plus_1_eq_Suc add.commute)
  have a: "\<forall>q. 1 \<le> q \<and> q < 1 + n \<longrightarrow> page_records fetch y q \<noteq> []"
    using assms(3) n by simp
  have b: "1 + n \<le> 11" using assms(2) n by simp
  from scrape_loop_run [OF a b, of "[]" "[]"] show ?thesis
    unfolding scrapeYearData_def n by simp
qed

lemma scrape_loop_fetched:
  "if hasMorePages \<and> page \<le> 10
   then \<exists>k. page < k \<and> k \<le> 11 \<and>
          fst (scrape_loop fetch y cs page hasMorePages fetched) = fetched @ map (url y) [page..<k]
   else fst (scrape_loop fetch y cs page hasMorePages fetched) = fetched"
proof (induction fetch y cs page hasMorePages fetched rule: scrape_loop.induct)
  case (1 fetch y churches page hasMorePages fetched)
  show ?case
  proof (cases "hasMorePages \<and> page \<le> 10")
    case False
    then show ?thesis by (subst scrape_loop.simps) auto
  next
    case True
    have one: "fetched @ [url y page] = fetched @ map (url y) [page..<Suc page]" by simp
    have stop: "\<exists>k. page < k \<and> k \<le> 11 \<and> fetched @ [url y page] = fetched @ map (url y) [page..<k]"
      using True one by (intro exI [of _ "Suc page"]) simp
    show ?thesis
    proof (cases "fetch (url y page)")
      case (Inl e)
      with True stop show ?thesis by (subst scrape_loop.simps) auto
    next
      case (Inr r)
      obtain ok st msg bd where r: "r = Response ok st msg bd" by (cases r)
      show ?thesis
      proof (cases ok)
        case False
        with True Inr r stop show ?thesis by (subst scrape_loop.simps) auto
      next
        case ok: True
        show ?thesis
        proof (cases bd)
          case (Inl e)
          with True Inr r ok stop show ?thesis by (subst scrape_loop.simps) auto
        next
          case h: (Inr h)
          show ?thesis
          proof (cases "parseChurchesFromHTML h = []")
            case e: True
            from "1.IH"(1) [OF True Inr r _ h e] ok
            have "fst (scrape_loop fetch y churches page False (fetched @ [url y page])) =
                  fetched @ [url y page]" by simp
            with True Inr r ok h e stop show ?thesis by (subst scrape_loop.simps) simp
          next
            case ne: False
            from "1.IH"(2) [OF True Inr r _ h ne] ok
            have ih: "if Suc page \<le> 10
              then \<exists>k. Suc page < k \<and> k \<le> 11 \<and>
                fst (scrape_loop fetch y (churches @ parseChurchesFromHTML h) (Suc page) True
                  (fetched @ [url y page])) = (fetched @ [url y page]) @ map (url y) [Suc page..<k]
              else fst (scrape_loop fetch y (churches @ parseChurchesFromHTML h) (Suc page) True
                  (fetched @ [url y page])) = fetched @ [url y page]"
              by (auto split: if_splits)
            have "\<exists>k. page < k \<and> k \<le> 11 \<and>
                fst (scrape_loop fetch y (churches @ parseChurchesFromHTML h) (Suc page) True
                  (fetched @ [url y page])) = fetched @ map (url y) [page..<k]"
            proof (cases "Suc page \<le> 10")
              case True
              with ih obtain k where k: "Suc page < k" "k \<le> 11"
                "fst (scrape_loop fetch y (churches @ parseChurchesFromHTML h) (Suc page) True
                  (fetched @ [url y page])) = (fetched @ [url y page]) @ map (url y) [Suc page..<k]"
                by auto
              from k(1) have "[page..<k] = page # [Suc page..<k]" by (simp add: upt_conv_Cons)
              with k show ?thesis by (intro exI [of _ k]) simp
            next
              case False
              with ih stop show ?thesis by simp
            qed
            with True Inr r ok h ne show ?thesis by (subst scrape_loop.simps) simp
          qed
        qed
      qed
    qed
  qed
qed

lemma scrape_fetched:
  "\<exists>k. 1 \<le> k \<and> k \<le> 10 \<and> fst (scrapeYearData fetch y) = map (url y) [1..<Suc k]"
proof -
  from scrape_loop_fetched [of True 1 fetch y "[]" "[]"]
  obtain k where k: "1 < k" "k \<le> 11" "fst (scrapeYearData fetch y) = map (url y) [1..<k]"
    by (auto simp: scrapeYearData_def)
  from k(1) obtain k' where k': "k = Suc k'" by (cases k) auto
  with k have "1 \<le> k' \<and> k' \<le> 10 \<and> fst (scrapeYearData fetch y) = map (url y) [1..<Suc k']"
    by simp
  then show ?thesis by blast
qed

lemma scrape_loop_past_cap:
  "10 < page \<Longrightarrow> scrape_loop fetch y cs page True fetched = (fetched, Inr cs)"
  by (subst scrape_loop.simps) simp

lemma scrape_loop_stop:
  assumes "page_records fetch y page = []" and "page \<le> 10"
  shows "scrape_loop fetch y cs page True fetched =
         (fetched @ [url y page],
          if page = 1 then (case thrown_on fetch y 1 of Some e \<Rightarrow> Inl e | None \<Rightarrow> Inr cs)
          else Inr cs)"
proof (cases "fetch (url y page)")
  case (Inl e)
  with assms(2) show ?thesis
    by (subst scrape_loop.simps) (auto simp: thrown_on_def)
next
  case (Inr r)
  obtain ok st msg bd where r: "r = Response ok st msg bd" by (cases r)
  show ?thesis
  proof (cases ok)
    case False
    with Inr r assms(2) show ?thesis
      by (subst scrape_loop.simps) (auto simp: thrown_on_def)
  next
    case ok: True
    show ?thesis
    proof (cases bd)
      case (Inl e)
      with Inr r ok assms(2) show ?thesis
        by (subst scrape_loop.simps) (auto simp: thrown_on_def)
    next
      case h: (Inr h)
      with Inr r ok assms(1) have e: "parseChurchesFromHTML h = []"
        by (simp add: page_records_def)
      from scrape_loop_stop_empty [OF _ e assms(2), of fetch y st msg cs fetched] Inr r ok h
      have "scrape_loop fetch y cs page True fetched = (fetched @ [url y page], Inr cs)"
        by simp
      with Inr r ok h show ?thesis
        by (auto simp: thrown_on_def)
    qed
  qed
qed

lemma thrown_on_records: "thrown_on fetch y p \<noteq> None \<Longrightarrow> page_records fetch y p = []"
  by (auto simp: thrown_on_def page_records_def
      split: sum.splits response.splits bool.splits if_splits)

lemma stop_page_range: "1 \<le> stop_page fetch y \<and> stop_page fetch y \<le> 11"
proof (cases "List.find (\<lambda>p. page_records fetch y p = []) [1..<11]")
  case None
  then show ?thesis by (simp add: stop_page_def)
next
  case (Some p)
  then have "p \<in> set [1..<11]"
    by (auto simp: find_Some_iff)
  with Some show ?thesis by (simp add: stop_page_def)
qed

lemma stop_page_before:
  "1 \<le> q \<Longrightarrow> q < stop_page fetch y \<Longrightarrow> page_records fetch y q \<noteq> []"
proof (cases "List.find (\<lambda>p. page_records fetch y p = []) [1..<11]")
  case None
  assume "1 \<le> q" "q < stop_page fetch y"
  with None have "q \<in> set [1..<11]" by (simp add: stop_page_def)
  with None show ?thesis by (auto simp: find_None_iff)
next
  case (Some p)
  assume q: "1 \<le> q" "q < stop_page fetch y"
  from Some obtain i where i: "i < length [1..<11::nat]" "p = [1..<11] ! i"
    "\<forall>j<i. \<not> page_records fetch y ([1..<11] ! j) = []"
    by (auto simp: find_Some_iff)
  from i(1,2) have p: "p = 1 + i" by simp
  from q Some p have "q - 1 < i" by (simp add: stop_page_def)
  with i(3) have "page_records fetch y ([1..<11] ! (q - 1)) \<noteq> []" by blast
  moreover from \<open>q - 1 < i\<close> i(1) q(1) have "[1..<11] ! (q - 1) = q" by simp
  ultimately show ?thesis by simp
qed

lemma stop_page_at:
  "stop_page fetch y \<le> 10 \<Longrightarrow> page_records fetch y (stop_page fetch y) = []"
proof (cases "List.find (\<lambda>p. page_records fetch y p = []) [1..<11]")
  case None
  assume "stop_page fetch y \<le> 10"
  with None show ?thesis by (simp add: stop_page_def)
next
  case (Some p)
  then have "page_records fetch y p = []" by (auto simp: find_Some_iff)
  with Some show ?thesis by (simp add: stop_page_def)
qed

lemma scrape_all_ten:
  assumes "\<forall>q. 1 \<le> q \<and> q \<le> 10 \<longrightarrow> page_records fetch y q \<noteq> []"
  shows "scrapeYearData fetch y =
         (map (url y) [1..<11], Inr (concat (map (page_records fetch y) [1..<11])))"
proof -
  have a: "\<forall>q. 1 \<le> q \<and> q < 1 + 10 \<longrightarrow> page_records fetch y q \<noteq> []"
    using assms by simp
  have b: "(1::nat) + 10 \<le> 11" by simp
  from scrape_loop_run [OF a b, of "[]" "[]"] show ?thesis
    by (simp add: scrapeYearData_def scrape_loop_past_cap)
qed

lemma scrape_result:
  "scrapeYearData fetch y =
     (map (url y) [1..<Suc (min (stop_page fetch y) 10)],
      case thrown_on fetch y 1 of
        Some e \<Rightarrow> Inl e
      | None \<Rightarrow> Inr (concat (map (page_records fetch y) [1..<stop_page fetch y])))"
proof (cases "stop_page fetch y \<le> 10")
  case True
  let ?p = "stop_page fetch y"
  have r: "1 \<le> ?p" using stop_page_range [of fetch y] by simp
  have pre: "\<forall>q. 1 \<le> q \<and> q < ?p \<longrightarrow> page_records fetch y q \<noteq> []"
    using stop_page_before [of _ fetch y] by blast
  have u: "scrapeYearData fetch y =
      scrape_loop fetch y (concat (map (page_records fetch y) [1..<?p])) ?p True
        (map (url y) [1..<?p])"
    by (rule scrape_until [OF r True pre])
  have s: "scrape_loop fetch y (concat (map (page_records fetch y) [1..<?p])) ?p True
        (map (url y) [1..<?p]) =
      (map (url y) [1..<?p] @ [url y ?p],
       if ?p = 1 then (case thrown_on fetch y 1 of Some e \<Rightarrow> Inl e
          | None \<Rightarrow> Inr (concat (map (page_records fetch y) [1..<?p])))
       else Inr (concat (map (page_records fetch y) [1..<?p])))"
    by (rule scrape_loop_stop [OF stop_page_at [OF True] True])
  have m: "map (url y) [1..<?p] @ [url y ?p] = map (url y) [1..<Suc (min ?p 10)]"
    using r True by (simp add: min_def)
  have t: "thrown_on fetch y 1 = None" if "?p \<noteq> 1"
  proof (rule ccontr)
    assume "thrown_on fetch y 1 \<noteq> None"
    then have "page_records fetch y 1 = []" by (rule thrown_on_records)
    moreover from that r have "1 < ?p" by simp
    ultimately show False using pre by auto
  qed
  show ?thesis
  proof (cases "?p = 1")
    case True
    with u s m show ?thesis by simp
  next
    case False
    with u s m t show ?thesis by simp
  qed
next
  case False
  with stop_page_range [of fetch y] have p: "stop_page fetch y = 11" by simp
  have pre: "\<forall>q. 1 \<le> q \<and> q \<le> 10 \<longrightarrow> page_records fetch y q \<noteq> []"
    using stop_page_before [of _ fetch y] p by simp
  then have "page_records fetch y 1 \<noteq> []" by simp
  then have "thrown_on fetch y 1 = None"
    using thrown_on_records [of fetch y 1] by blast
  with scrape_all_ten [OF pre] p show ?thesis by simp
qed

lemmas url_eval = url_def string_of_number_def string_of_nat.simps

lemma three_pages_records:
  "page_records three_pages (Num 2020) 1 = [org ''A'' 1, org ''B'' 2]"
  "page_records three_pages (Num 2020) (Suc 0) = [org ''A'' 1, org ''B'' 2]"
  "page_records three_pages (Num 2020) 2 = [org ''C'' 1]"
  by (simp_all add: page_records_def three_pages_def ok_page_def url_eval extractor_eval org_def)

lemma two_pages_records:
  "page_records two_pages (Num 2020) 1 = [org ''A'' 1, org ''B'' 2]"
  "page_records two_pages (Num 2020) (Suc 0) = [org ''A'' 1, org ''B'' 2]"
  "page_records two_pages (Num 2020) 2 = [org ''C'' 1]"
  by (simp_all add: page_records_def two_pages_def ok_page_def url_eval extractor_eval org_def)

lemma below_three: "1 \<le> q \<and> q < (3::nat) \<Longrightarrow> q = 1 \<or> q = 2"
  by arith

lemma full_site_records: "page_records full_site y q = [org ''A'' 1]"
  by (simp add: page_records_def full_site_def ok_page_def extractor_eval org_def)

lemma dropped_records:
  "page_records dropped_after_one (Num 2020) 1 = [org ''A'' 1, org ''B'' 2]"
  "page_records dropped_after_one (Num 2020) (Suc 0) = [org ''A'' 1, org ''B'' 2]"
  by (simp_all add: page_records_def dropped_after_one_def ok_page_def url_eval extractor_eval
      org_def)

lemma below_two: "1 \<le> q \<and> q < (2::nat) \<Longrightarrow> q = 1"
  by arith

text \<open>
  C6. In \<^verbatim>\<open>scrapeYearData\<close>, a response that is not ok on page 1 makes the whole year
  fail with the error thrown; a response that is not ok on a page greater than 1 (which
  is fetched when all pages before it gave records) ends the loop without error, and the
  records of the pages before it are returned.
\<close>

theorem scrape_not_ok_page:
  "(fetch (url y 1) = Inr (Response False st msg bd) \<longrightarrow>
      scrapeYearData fetch y = ([url y 1], Inl (http_error st msg))) \<and>
   (1 < p \<and> p \<le> 10 \<and> (\<forall>q. 1 \<le> q \<and> q < p \<longrightarrow> page_records fetch y q \<noteq> []) \<and>
    fetch (url y p) = Inr (Response False st msg bd) \<longrightarrow>
      scrapeYearData fetch y =
        (map (url y) [1..<Suc p], Inr (concat (map (page_records fetch y) [1..<p]))))"
proof (intro conjI impI)
  assume "fetch (url y 1) = Inr (Response False st msg bd)"
  with scrape_loop_stop_not_ok [of fetch y 1 st msg bd "[]" "[]"]
  show "scrapeYearData fetch y = ([url y 1], Inl (http_error st msg))"
    by (simp add: scrapeYearData_def)
next
  assume a: "1 < p \<and> p \<le> 10 \<and> (\<forall>q. 1 \<le> q \<and> q < p \<longrightarrow> page_records fetch y q \<noteq> []) \<and>
    fetch (url y p) = Inr (Response False st msg bd)"
  then have u: "scrapeYearData fetch y =
      scrape_loop fetch y (concat (map (page_records fetch y) [1..<p])) p True (map (url y) [1..<p])"
    by (intro scrape_until) simp_all
  from a have s: "scrape_loop fetch y (concat (map (page_records fetch y) [1..<p])) p True
      (map (url y) [1..<p]) =
      (map (url y) [1..<p] @ [url y p], Inr (concat (map (page_records fetch y) [1..<p])))"
    using scrape_loop_stop_not_ok [of fetch y p st msg bd
        "concat (map (page_records fetch y) [1..<p])" "map (url y) [1..<p]"]
    by simp
  from a have "map (url y) [1..<p] @ [url y p] = map (url y) [1..<Suc p]" by simp
  with u s show "scrapeYearData fetch y =
      (map (url y) [1..<Suc p], Inr (concat (map (page_records fetch y) [1..<p])))"
    by simp
qed

theorem scrape_not_ok_page_witness:
  "scrapeYearData (\<lambda>u. Inr (Response False 404 ''Not Found'' (Inr []))) (Num 2020) =
     ([''https://outreach100.com/largest-churches-in-america/2020''],
      Inl (Error ''HTTP 404: Not Found'')) \<and>
   page_records two_pages (Num 2020) 1 = [org ''A'' 1, org ''B'' 2] \<and>
   page_records two_pages (Num 2020) 2 = [org ''C'' 1] \<and>
   two_pages (url (Num 2020) 3) = Inr (Response False 404 ''Not Found'' (Inr [])) \<and>
   scrapeYearData two_pages (Num 2020) =
     ([''https://outreach100.com/largest-churches-in-america/2020'',
       ''https://outreach100.com/largest-churches-in-america/2020?page=2'',
       ''https://outreach100.com/largest-churches-in-america/2020?page=3''],
      Inr [org ''A'' 1, org ''B'' 2, org ''C'' 1])"
proof -
  have a: "scrapeYearData (\<lambda>u. Inr (Response False 404 ''Not Found'' (Inr []))) (Num 2020) =
      ([''https://outreach100.com/largest-churches-in-america/2020''],
       Inl (Error ''HTTP 404: Not Found''))"
    using scrape_not_ok_page [of "\<lambda>u. Inr (Response False 404 ''Not Found'' (Inr []))"
        "Num 2020" 404 "''Not Found''" "Inr []"]
    by (simp add: url_eval http_error_def)
  have pre: "\<forall>q. 1 \<le> q \<and> q < 3 \<longrightarrow> page_records two_pages (Num 2020) q \<noteq> []"
    using two_pages_records below_three by fastforce
  have p3: "two_pages (url (Num 2020) 3) = Inr (Response False 404 ''Not Found'' (Inr []))"
    by (simp add: two_pages_def ok_page_def not_found_def url_eval)
  have up: "[1..<Suc 3] = [1, 2, 3]" "[1..<3] = [1, 2::nat]"
    by (simp_all add: upt_conv_Cons)
  from scrape_not_ok_page [of two_pages "Num 2020" 404 "''Not Found''" "Inr []" 3] pre p3
  have "scrapeYearData two_pages (Num 2020) =
      (map (url (Num 2020)) [1..<Suc 3],
       Inr (concat (map (page_records two_pages (Num 2020)) [1..<3])))"
    by simp
  then have "scrapeYearData two_pages (Num 2020) =
     ([''https://outreach100.com/largest-churches-in-america/2020'',
       ''https://outreach100.com/largest-churches-in-america/2020?page=2'',
       ''https://outreach100.com/largest-churches-in-america/2020?page=3''],
      Inr [org ''A'' 1, org ''B'' 2, org ''C'' 1])"
    unfolding up by (simp add: two_pages_records url_eval)
  with a two_pages_records(1,3) p3 show ?thesis by (intro conjI)
qed

text \<open>
  C7. For every year and every network, \<^verbatim>\<open>scrapeYearData\<close> returns after fetching the
  pages 1 to \<open>k\<close> for some \<open>k\<close> of at most 10, each once and in order. It stops at the
  first page whose extraction yields no record, and then returns the concatenation of the
  records of the pages before it, in page order. It returns the same when, on a page
  after the first, \<^verbatim>\<open>fetch\<close> or \<^verbatim>\<open>response.text()\<close> rejects, and it returns the records
  of all ten pages when each of them has some. In all: whatever the network, unless page 1
  throws, the result is the concatenation of the records of the pages before the first
  page from 1 to 10 that contributes none.
\<close>

theorem scrape_stops_at_empty_page:
  "length (fst (scrapeYearData fetch y)) \<le> 10 \<and>
   (\<exists>k. 1 \<le> k \<and> k \<le> 10 \<and> fst (scrapeYearData fetch y) = map (url y) [1..<Suc k]) \<and>
   (1 \<le> p \<and> p \<le> 10 \<and> (\<forall>q. 1 \<le> q \<and> q < p \<longrightarrow> page_records fetch y q \<noteq> []) \<and>
    fetch (url y p) = Inr (Response True st msg (Inr h)) \<and> parseChurchesFromHTML h = [] \<longrightarrow>
    scrapeYearData fetch y =
      (map (url y) [1..<Suc p], Inr (concat (map (page_records fetch y) [1..<p])))) \<and>
   (1 < p \<and> p \<le> 10 \<and> (\<forall>q. 1 \<le> q \<and> q < p \<longrightarrow> page_records fetch y q \<noteq> []) \<and>
    (fetch (url y p) = Inl e \<or> fetch (url y p) = Inr (Response True st msg (Inl e))) \<longrightarrow>
    scrapeYearData fetch y =
      (map (url y) [1..<Suc p], Inr (concat (map (page_records fetch y) [1..<p])))) \<and>
   ((\<forall>q. 1 \<le> q \<and> q \<le> 10 \<longrightarrow> page_records fetch y q \<noteq> []) \<longrightarrow>
    scrapeYearData fetch y =
      (map (url y) [1..<11], Inr (concat (map (page_records fetch y) [1..<11])))) \<and>
   scrapeYearData fetch y =
     (map (url y) [1..<Suc (min (stop_page fetch y) 10)],
      case thrown_on fetch y 1 of
        Some e \<Rightarrow> Inl e
      | None \<Rightarrow> Inr (concat (map (page_records fetch y) [1..<stop_page fetch y])))"
proof (intro conjI impI)
  from scrape_fetched [of fetch y] obtain k where
    "k \<le> 10" "fst (scrapeYearData fetch y) = map (url y) [1..<Suc k]" by blast
  then show "length (fst (scrapeYearData fetch y)) \<le> 10" by simp
next
  show "\<exists>k. 1 \<le> k \<and> k \<le> 10 \<and> fst (scrapeYearData fetch y) = map (url y) [1..<Suc k]"
    by (rule scrape_fetched)
next
  assume a: "1 \<le> p \<and> p \<le> 10 \<and> (\<forall>q. 1 \<le> q \<and> q < p \<longrightarrow> page_records fetch y q \<noteq> []) \<and>
    fetch (url y p) = Inr (Response True st msg (Inr h)) \<and> parseChurchesFromHTML h = []"
  then have u: "scrapeYearData fetch y =
      scrape_loop fetch y (concat (map (page_records fetch y) [1..<p])) p True (map (url y) [1..<p])"
    by (intro scrape_until) simp_all
  from a have s: "scrape_loop fetch y (concat (map (page_records fetch y) [1..<p])) p True
      (map (url y) [1..<p]) =
      (map (url y) [1..<p] @ [url y p], Inr (concat (map (page_records fetch y) [1..<p])))"
    by (intro scrape_loop_stop_empty [of fetch y p st msg h]) simp_all
  from a have "map (url y) [1..<p] @ [url y p] = map (url y) [1..<Suc p]" by simp
  with u s show "scrapeYearData fetch y =
      (map (url y) [1..<Suc p], Inr (concat (map (page_records fetch y) [1..<p])))"
    by simp
next
  assume a: "1 < p \<and> p \<le> 10 \<and> (\<forall>q. 1 \<le> q \<and> q < p \<longrightarrow> page_records fetch y q \<noteq> []) \<and>
    (fetch (url y p) = Inl e \<or> fetch (url y p) = Inr (Response True st msg (Inl e)))"
  then have u: "scrapeYearData fetch y =
      scrape_loop fetch y (concat (map (page_records fetch y) [1..<p])) p True (map (url y) [1..<p])"
    by (intro scrape_until) simp_all
  from a have none: "page_records fetch y p = []"
    by (auto simp: page_records_def)
  from a have le: "p \<le> 10" and ne: "p \<noteq> 1" by simp_all
  from scrape_loop_stop [OF none le, of "concat (map (page_records fetch y) [1..<p])"
      "map (url y) [1..<p]"] ne
  have s: "scrape_loop fetch y (concat (map (page_records fetch y) [1..<p])) p True
      (map (url y) [1..<p]) =
      (map (url y) [1..<p] @ [url y p], Inr (concat (map (page_records fetch y) [1..<p])))"
    by simp
  from a have "map (url y) [1..<p] @ [url y p] = map (url y) [1..<Suc p]" by simp
  with u s show "scrapeYearData fetch y =
      (map (url y) [1..<Suc p], Inr (concat (map (page_records fetch y) [1..<p])))"
    by simp
next
  assume "\<forall>q. 1 \<le> q \<and> q \<le> 10 \<longrightarrow> page_records fetch y q \<noteq> []"
  then show "scrapeYearData fetch y =
      (map (url y) [1..<11], Inr (concat (map (page_records fetch y) [1..<11])))"
    by (rule scrape_all_ten)
next
  show "scrapeYearData fetch y =
     (map (url y) [1..<Suc (min (stop_page fetch y) 10)],
      case thrown_on fetch y 1 of
        Some e \<Rightarrow> Inl e
      | None \<Rightarrow> Inr (concat (map (page_records fetch y) [1..<stop_page fetch y])))"
    by (rule scrape_result)
qed

theorem scrape_stops_at_empty_page_witness:
  "page_records three_pages (Num 2020) 1 = [org ''A'' 1, org ''B'' 2] \<and>
   page_records three_pages (Num 2020) 2 = [org ''C'' 1] \<and>
   three_pages (url (Num 2020) 3) = Inr (Response True 200 ''OK'' (Inr [])) \<and>
   parseChurchesFromHTML [] = [] \<and>
   scrapeYearData three_pages (Num 2020) =
     ([''https://outreach100.com/largest-churches-in-america/2020'',
       ''https://outreach100.com/largest-churches-in-america/2020?page=2'',
       ''https://outreach100.com/largest-churches-in-america/2020?page=3''],
      Inr [org ''A'' 1, org ''B'' 2, org ''C'' 1]) \<and>
   page_records dropped_after_one (Num 2020) 1 = [org ''A'' 1, org ''B'' 2] \<and>
   dropped_after_one (url (Num 2020) 2) = Inl (Error ''socket hang up'') \<and>
   scrapeYearData dropped_after_one (Num 2020) =
     ([''https://outreach100.com/largest-churches-in-america/2020'',
       ''https://outreach100.com/largest-churches-in-america/2020?page=2''],
      Inr [org ''A'' 1, org ''B'' 2]) \<and>
   page_records full_site (Num 2020) 10 = [org ''A'' 1] \<and>
   length (fst (scrapeYearData full_site (Num 2020))) = 10 \<and>
   snd (scrapeYearData full_site (Num 2020)) = Inr (replicate 10 (org ''A'' 1))"
proof -
  have pre: "\<forall>q. 1 \<le> q \<and> q < 3 \<longrightarrow> page_records three_pages (Num 2020) q \<noteq> []"
    using three_pages_records below_three by fastforce
  have p3: "three_pages (url (Num 2020) 3) = Inr (Response True 200 ''OK'' (Inr []))"
    by (simp add: three_pages_def ok_page_def url_eval)
  have e: "parseChurchesFromHTML [] = []"
    by (simp add: parseChurchesFromHTML_def sort_by_def)
  have up: "[1..<Suc 3] = [1, 2, 3]" "[1..<3] = [1, 2::nat]" "[1..<Suc 2] = [1, 2]"
    "[1..<2] = [1::nat]"
    by (simp_all add: upt_conv_Cons)
  have ten: "[1..<11] = [1, 2, 3, 4, 5, 6, 7, 8, 9, 10::nat]"
    by (simp add: upt_conv_Cons)
  from scrape_stops_at_empty_page [of three_pages "Num 2020" 3 200 "''OK''" "[]"] pre p3 e
  have "scrapeYearData three_pages (Num 2020) =
      (map (url (Num 2020)) [1..<Suc 3],
       Inr (concat (map (page_records three_pages (Num 2020)) [1..<3])))"
    by simp
  then have a: "scrapeYearData three_pages (Num 2020) =
     ([''https://outreach100.com/largest-churches-in-america/2020'',
       ''https://outreach100.com/largest-churches-in-america/2020?page=2'',
       ''https://outreach100.com/largest-churches-in-america/2020?page=3''],
      Inr [org ''A'' 1, org ''B'' 2, org ''C'' 1])"
    unfolding up by (simp add: three_pages_records url_eval)
  have pre2: "\<forall>q. 1 \<le> q \<and> q < 2 \<longrightarrow> page_records dropped_after_one (Num 2020) q \<noteq> []"
    using dropped_records below_two by fastforce
  have d2: "dropped_after_one (url (Num 2020) 2) = Inl (Error ''socket hang up'')"
    by (simp add: dropped_after_one_def url_eval)
  from scrape_stops_at_empty_page [of dropped_after_one "Num 2020" 2 _ _ _ "Error ''socket hang up''"]
    pre2 d2
  have "scrapeYearData dropped_after_one (Num 2020) =
      (map (url (Num 2020)) [1..<Suc 2],
       Inr (concat (map (page_records dropped_after_one (Num 2020)) [1..<2])))"
    by simp
  then have b: "scrapeYearData dropped_after_one (Num 2020) =
     ([''https://outreach100.com/largest-churches-in-america/2020'',
       ''https://outreach100.com/largest-churches-in-america/2020?page=2''],
      Inr [org ''A'' 1, org ''B'' 2])"
    unfolding up by (simp add: dropped_records url_eval)
  from scrape_stops_at_empty_page [of full_site "Num 2020"]
  have "scrapeYearData full_site (Num 2020) =
      (map (url (Num 2020)) [1..<11],
       Inr (concat (map (page_records full_site (Num 2020)) [1..<11])))"
    by (simp add: full_site_records)
  then have c: "length (fst (scrapeYearData full_site (Num 2020))) = 10"
    and c': "snd (scrapeYearData full_site (Num 2020)) = Inr (replicate 10 (org ''A'' 1))"
    unfolding ten by (simp_all add: full_site_records numeral_eq_Suc)
  from three_pages_records(1,3) p3 e a dropped_records(1) d2 b full_site_records c c'
  show ?thesis by (intro conjI)
qed

section \<open>Reading the data file\<close>

lemma loadChurchData_returns: "\<exists>d. fst (loadChurchData JSON_parse clock f st) = Inr d"
  by (auto simp: loadChurchData_def split: dataFile.splits sum.splits)

lemma get_data_never_500: "status (fst (get_data JSON_parse clock f st)) \<noteq> 500"
  by (auto simp: get_data_def loadChurchData_def
      split: dataFile.splits sum.splits json.splits option.splits)

text \<open>
  C8 says that a failure to read the data file reaches the caller of
  \<^verbatim>\<open>GET /api/get-data\<close> as a 500-class response. In the source, when the cached value is
  not valid and \<^verbatim>\<open>fs.readFile\<close> rejects or \<^verbatim>\<open>JSON.parse\<close> throws, \<^verbatim>\<open>loadChurchData\<close>
  catches the error and returns \<^verbatim>\<open>null\<close>, and the handler answers 404.
\<close>

theorem get_data_read_failure_is_404:
  assumes "\<not> cache_valid (clock 0) st"
    and "f = Unreadable e \<or> (f = Content s \<and> JSON_parse s = Inl e)"
  shows "get_data JSON_parse clock f st =
     (\<lparr>status = 404,
       body = DataError ''No church data found. Run /api/scrape-and-save first.''\<rparr>, st)"
proof -
  from assms(2) have "loadChurchData JSON_parse clock f st = (Inr Falsy, st)"
  proof
    assume "f = Unreadable e"
    with assms(1) show ?thesis by (simp add: loadChurchData_def)
  next
    assume "f = Content s \<and> JSON_parse s = Inl e"
    with assms(1) show ?thesis by (simp add: loadChurchData_def)
  qed
  then show ?thesis by (simp add: get_data_def)
qed

theorem get_data_read_failure_is_404_witness:
  "status (fst (get_data (\<lambda>s. Inl (Error ''Unexpected end of JSON input'')) (\<lambda>n. 1700000000000)
     (Content ''{'') \<lparr>cachedData = Falsy, lastLoaded = None\<rparr>)) = 404"
proof -
  have v: "\<not> cache_valid ((\<lambda>n. 1700000000000) 0) \<lparr>cachedData = Falsy, lastLoaded = None\<rparr>"
    by (simp add: cache_valid_def)
  have "Content ''{'' = Unreadable (Error ''Unexpected end of JSON input'') \<or>
      (Content ''{'' = Content ''{'' \<and>
       (\<lambda>s. Inl (Error ''Unexpected end of JSON input'')) ''{'' =
         (Inl (Error ''Unexpected end of JSON input'') :: error + json))"
    by simp
  from get_data_read_failure_is_404 [OF v this] show ?thesis by simp
qed

section \<open>The guard of GET /api/scrape-year/:year\<close>

lemma out_of_range_iff:
  "out_of_range y \<longleftrightarrow> (\<exists>i. y = Num i \<and> (i < 2015 \<or> 2024 < i))"
  by (cases y) (simp_all add: out_of_range_def)

lemma scrape_year_status_400:
  "status (fst (scrape_year fetch clock dataCache param)) = 400 \<longleftrightarrow> out_of_range (parseInt param)"
  by (auto simp: scrape_year_def Let_def split: option.splits prod.splits sum.splits error.splits)

lemma first_url:
  "\<exists>rest. fst (scrapeYearData fetch y) = url y 1 # rest"
proof -
  from scrape_fetched [of fetch y] obtain k where
    k: "1 \<le> k" "fst (scrapeYearData fetch y) = map (url y) [1..<Suc k]" by blast
  from k(1) have "[1..<Suc k] = 1 # [Suc 1..<Suc k]"
    by (intro upt_conv_Cons) simp
  with k(2) show ?thesis by simp
qed

lemmas parseInt_eval = parseInt_def parse_unsigned_def parse_digits_def hex_value_def is_digit_def
  is_space_def

lemma scrape_empty_site:
  "scrapeYearData empty_site y = ([url y 1], Inr [])"
proof -
  have "parseChurchesFromHTML [] = []"
    by (simp add: parseChurchesFromHTML_def sort_by_def)
  with scrape_loop_stop_empty [of empty_site y 1 200 "''OK''" "[]" "[]" "[]"]
  show ?thesis
    by (simp add: scrapeYearData_def empty_site_def ok_page_def)
qed

text \<open>
  As the claim C9 states it, a parameter that reads as \<^verbatim>\<open>NaN\<close> has a scrape attempted.
  The first request with \<^verbatim>\<open>abc\<close> fetches the page of \<^verbatim>\<open>NaN\<close> and stores the result
  under \<^verbatim>\<open>year-NaN\<close>; a second request one second later is answered from that entry
  and fetches nothing.
\<close>

theorem cached_nan_is_not_scraped:
  "parseInt ''abc'' = NaN \<and>
   snd (snd (scrape_year empty_site (\<lambda>n. 5000) Map.empty ''abc'')) =
     [''https://outreach100.com/largest-churches-in-america/NaN''] \<and>
   scrape_year empty_site (\<lambda>n. 6000)
       (fst (snd (scrape_year empty_site (\<lambda>n. 5000) Map.empty ''abc''))) ''abc'' =
     (\<lparr>status = 200, body = DataBody [] True 5000\<rparr>,
      fst (snd (scrape_year empty_site (\<lambda>n. 5000) Map.empty ''abc'')), [])"
proof -
  have p: "parseInt ''abc'' = NaN"
    by (simp add: parseInt_eval)
  have first: "scrape_year empty_site (\<lambda>n. 5000) Map.empty ''abc'' =
      (\<lparr>status = 200, body = DataBody [] False 5000\<rparr>,
       [''year-NaN'' \<mapsto> \<lparr>entry_data = [], timestamp = 5000\<rparr>],
       [''https://outreach100.com/largest-churches-in-america/NaN''])"
    by (simp add: scrape_year_def p out_of_range_def fresh_entry_def scrape_empty_site
        string_of_number_def url_def)
  have second: "scrape_year empty_site (\<lambda>n. 6000)
       [''year-NaN'' \<mapsto> \<lparr>entry_data = [], timestamp = 5000\<rparr>] ''abc'' =
      (\<lparr>status = 200, body = DataBody [] True 5000\<rparr>,
       [''year-NaN'' \<mapsto> \<lparr>entry_data = [], timestamp = 5000\<rparr>], [])"
    by (simp add: scrape_year_def p out_of_range_def fresh_entry_def string_of_number_def
        CACHE_DURATION_def)
  from p first second show ?thesis by simp
qed

text \<open>
  C9, as amended. \<^verbatim>\<open>GET /api/scrape-year/:year\<close> answers 400 exactly for the parameters
  whose integer parse is below 2015 or above 2024. A parameter whose parse is \<^verbatim>\<open>NaN\<close>
  is not rejected: the handler looks up the cache under \<^verbatim>\<open>year-NaN\<close>, answers from a
  fresh entry if there is one, and otherwise attempts a scrape of that value, whose first
  request is for the address that ends in \<^verbatim>\<open>NaN\<close>.
\<close>

theorem scrape_year_guard:
  "(status (fst (scrape_year fetch clock dataCache param)) = 400 \<longleftrightarrow>
      (\<exists>i. parseInt param = Num i \<and> (i < 2015 \<or> 2024 < i))) \<and>
   (parseInt param = NaN \<and> fresh_entry (clock 0) dataCache ''year-NaN'' = None \<longrightarrow>
      snd (snd (scrape_year fetch clock dataCache param)) = fst (scrapeYearData fetch NaN) \<and>
      (\<exists>rest. fst (scrapeYearData fetch NaN) =
         ''https://outreach100.com/largest-churches-in-america/NaN'' # rest)) \<and>
   (parseInt param = NaN \<and> fresh_entry (clock 0) dataCache ''year-NaN'' = Some cached \<longrightarrow>
      scrape_year fetch clock dataCache param =
        (\<lparr>status = 200, body = DataBody (entry_data cached) True (timestamp cached)\<rparr>,
         dataCache, []))"
proof (intro conjI impI)
  show "status (fst (scrape_year fetch clock dataCache param)) = 400 \<longleftrightarrow>
      (\<exists>i. parseInt param = Num i \<and> (i < 2015 \<or> 2024 < i))"
    by (simp only: scrape_year_status_400 out_of_range_iff)
next
  assume a: "parseInt param = NaN \<and> fresh_entry (clock 0) dataCache ''year-NaN'' = None"
  then show "snd (snd (scrape_year fetch clock dataCache param)) = fst (scrapeYearData fetch NaN)"
    by (auto simp: scrape_year_def Let_def out_of_range_def string_of_number_def
        split: prod.splits sum.splits error.splits)
  from first_url [of fetch NaN]
  show "\<exists>rest. fst (scrapeYearData fetch NaN) =
         ''https://outreach100.com/largest-churches-in-america/NaN'' # rest"
    by (simp add: url_def string_of_number_def)
next
  assume "parseInt param = NaN \<and> fresh_entry (clock 0) dataCache ''year-NaN'' = Some cached"
  then show "scrape_year fetch clock dataCache param =
        (\<lparr>status = 200, body = DataBody (entry_data cached) True (timestamp cached)\<rparr>,
         dataCache, [])"
    by (simp add: scrape_year_def Let_def out_of_range_def string_of_number_def)
qed

theorem scrape_year_guard_witness:
  "status (fst (scrape_year empty_site (\<lambda>n. 5000) Map.empty ''1999'')) = 400 \<and>
   status (fst (scrape_year empty_site (\<lambda>n. 5000) Map.empty ''abc'')) \<noteq> 400 \<and>
   snd (snd (scrape_year empty_site (\<lambda>n. 5000) Map.empty ''abc'')) =
     [''https://outreach100.com/largest-churches-in-america/NaN''] \<and>
   scrape_year empty_site (\<lambda>n. 6000)
       [''year-NaN'' \<mapsto> \<lparr>entry_data = [], timestamp = 5000\<rparr>] ''abc'' =
     (\<lparr>status = 200, body = DataBody [] True 5000\<rparr>,
      [''year-NaN'' \<mapsto> \<lparr>entry_data = [], timestamp = 5000\<rparr>], [])"
proof -
  have p: "parseInt ''abc'' = NaN" and q: "parseInt ''1999'' = Num 1999"
    by (simp_all add: parseInt_eval)
  have miss: "fresh_entry ((\<lambda>n. 5000) 0) Map.empty ''year-NaN'' = None"
    by (simp add: fresh_entry_def)
  have hit: "fresh_entry ((\<lambda>n. 6000) 0) [''year-NaN'' \<mapsto> \<lparr>entry_data = [], timestamp = 5000\<rparr>]
      ''year-NaN'' = Some \<lparr>entry_data = [], timestamp = 5000\<rparr>"
    by (simp add: fresh_entry_def CACHE_DURATION_def)
  have s: "fst (scrapeYearData empty_site NaN) =
      [''https://outreach100.com/largest-churches-in-america/NaN'']"
    by (simp add: scrape_empty_site url_def string_of_number_def)
  from scrape_year_guard [of empty_site "\<lambda>n. 5000" Map.empty "''1999''"] q
  have a: "status (fst (scrape_year empty_site (\<lambda>n. 5000) Map.empty ''1999'')) = 400"
    by simp
  from scrape_year_guard [of empty_site "\<lambda>n. 5000" Map.empty "''abc''"] p miss s
  have b: "status (fst (scrape_year empty_site (\<lambda>n. 5000) Map.empty ''abc'')) \<noteq> 400 \<and>
      snd (snd (scrape_year empty_site (\<lambda>n. 5000) Map.empty ''abc'')) =
        [''https://outreach100.com/largest-churches-in-america/NaN'']"
    by simp
  from scrape_year_guard [of empty_site "\<lambda>n. 6000" "[''year-NaN'' \<mapsto> \<lparr>entry_data = [], timestamp = 5000\<rparr>]"
      "''abc''" "\<lparr>entry_data = [], timestamp = 5000\<rparr>"] p hit
  have c: "scrape_year empty_site (\<lambda>n. 6000)
       [''year-NaN'' \<mapsto> \<lparr>entry_data = [], timestamp = 5000\<rparr>] ''abc'' =
     (\<lparr>status = 200, body = DataBody [] True 5000\<rparr>,
      [''year-NaN'' \<mapsto> \<lparr>entry_data = [], timestamp = 5000\<rparr>], [])"
    by simp
  from a b c show ?thesis by blast
qed

end
